theory Spec2Isabelle
  imports Complex_Main "HOL-Library.Word"
begin

section \<open>JavaScript strings\<close>

text \<open>
  A JavaScript string is a sequence of 16-bit code units; \<open>length\<close>, \<open>substring\<close>,
  \<open>trim\<close> and a regular expression without the \<open>u\<close> flag all count and inspect
  code units. String literals of the source are ASCII and are written through \<open>js\<close>.
\<close>

type_synonym jschar = "16 word"
type_synonym jsstring = "jschar list"

definition js :: "string \<Rightarrow> jsstring" where
  "js s = map of_char s"

text \<open>
  The class \<open>\s\<close> of a regular expression, which is also the set of code units that
  \<open>String.prototype.trim\<close> removes: WhiteSpace and LineTerminator of ECMAScript.
\<close>

definition is_space :: "jschar \<Rightarrow> bool" where
  "is_space c \<longleftrightarrow>
     c = 0x09 \<or> c = 0x0A \<or> c = 0x0B \<or> c = 0x0C \<or> c = 0x0D \<or> c = 0x20 \<or> c = 0xA0 \<or>
     c = 0x1680 \<or> (0x2000 \<le> c \<and> c \<le> 0x200A) \<or> c = 0x2028 \<or> c = 0x2029 \<or>
     c = 0x202F \<or> c = 0x205F \<or> c = 0x3000 \<or> c = 0xFEFF"

text \<open>The class \<open>\d\<close> (without the \<open>u\<close> flag): the ten ASCII digits.\<close>

definition is_digit :: "jschar \<Rightarrow> bool" where
  "is_digit c \<longleftrightarrow> 0x30 \<le> c \<and> c \<le> 0x39"

text \<open>The class \<open>[\s\S]\<close>: every code unit.\<close>

definition is_any :: "jschar \<Rightarrow> bool" where
  "is_any c \<longleftrightarrow> is_space c \<or> \<not> is_space c"

text \<open>The class \<open>[,.]\<close>.\<close>

definition is_sep :: "jschar \<Rightarrow> bool" where
  "is_sep c \<longleftrightarrow> c = 0x2C \<or> c = 0x2E"

definition is_lf :: "jschar \<Rightarrow> bool" where
  "is_lf c \<longleftrightarrow> c = 0x0A"

text \<open>\<open>String.prototype.trim\<close>.\<close>

definition trim :: "jsstring \<Rightarrow> jsstring" where
  "trim s = rev (dropWhile is_space (rev (dropWhile is_space s)))"

text \<open>\<open>s.substring(i)\<close> for an index \<open>0 \<le> i\<close>: the code units from \<open>i\<close> on.\<close>

definition substring :: "jsstring \<Rightarrow> nat \<Rightarrow> jsstring" where
  "substring s i = drop i s"

text \<open>\<open>s.startsWith(w)\<close>, used to match a literal of a pattern.\<close>

fun starts_with :: "'a list \<Rightarrow> 'a list \<Rightarrow> bool" where
  "starts_with s [] = True"
| "starts_with [] (y # ys) = False"
| "starts_with (x # xs) (y # ys) = (x = y \<and> starts_with xs ys)"

text \<open>\<open>hay.includes(needle)\<close>.\<close>

fun includes_str :: "'a list \<Rightarrow> 'a list \<Rightarrow> bool" where
  "includes_str [] needle = (needle = [])"
| "includes_str (x # xs) needle = (starts_with (x # xs) needle \<or> includes_str xs needle)"

text \<open>
  \<open>String.prototype.toLowerCase\<close> is a built-in that follows the case mappings of
  Unicode. The functions of this program that call it take it as their first
  argument, \<open>toLowerCase\<close>. What it does to a string of ASCII code units is
  \<open>ascii_lower\<close>: \<open>A\<close>..\<open>Z\<close> move up by 32. \<open>lowers_ascii\<close> says of such an argument
  what holds of the built-in: on an ASCII string it is \<open>ascii_lower\<close>, and the
  result for a string that begins with ASCII code units begins with their lower
  case, whatever follows them.
\<close>

definition ascii_lower_unit :: "jschar \<Rightarrow> jschar" where
  "ascii_lower_unit c = (if 0x41 \<le> c \<and> c \<le> 0x5A then c + 0x20 else c)"

definition ascii_lower :: "jsstring \<Rightarrow> jsstring" where
  "ascii_lower s = map ascii_lower_unit s"

definition is_ascii :: "jsstring \<Rightarrow> bool" where
  "is_ascii s \<longleftrightarrow> (\<forall>c \<in> set s. c < 0x80)"

definition lowers_ascii :: "(jsstring \<Rightarrow> jsstring) \<Rightarrow> bool" where
  "lowers_ascii toLowerCase \<longleftrightarrow>
     (\<forall>s. is_ascii s \<longrightarrow> toLowerCase s = ascii_lower s) \<and>
     (\<forall>s rest. is_ascii s \<longrightarrow> (\<exists>r. toLowerCase (s @ rest) = ascii_lower s @ r))"

text \<open>\<open>s.split(',')\<close>: the pieces between the separators, at least one piece.\<close>

fun split :: "'a \<Rightarrow> 'a list \<Rightarrow> 'a list list" where
  "split sep [] = [[]]"
| "split sep (x # xs) =
     (if x = sep then [] # split sep xs
      else (case split sep xs of p # ps \<Rightarrow> (x # p) # ps | [] \<Rightarrow> [[x]]))"

section \<open>Regular expressions as backtracking matchers\<close>

text \<open>
  A pattern is run by backtracking. A matcher takes the rest of the input together
  with the text captured by group 1 so far, and returns every way of matching, as
  the list of the states after the match, in the order in which backtracking tries
  them: the head of the list is the match that \<open>RegExp\<close> reports.
\<close>

type_synonym mstate = "jsstring \<times> jsstring option"
type_synonym matcher = "mstate \<Rightarrow> mstate list"

text \<open>A literal run of characters.\<close>

definition lit :: "jsstring \<Rightarrow> matcher" where
  "lit w = (\<lambda>(s, g). if starts_with s w then [(drop (length w) s, g)] else [])"

text \<open>One character of a class.\<close>

definition cls :: "(jschar \<Rightarrow> bool) \<Rightarrow> matcher" where
  "cls p = (\<lambda>(s, g). case s of [] \<Rightarrow> [] | x # xs \<Rightarrow> if p x then [(xs, g)] else [])"

text \<open>Concatenation: every continuation of every match of the first pattern, in order.\<close>

definition seq :: "matcher \<Rightarrow> matcher \<Rightarrow> matcher" where
  "seq m1 m2 = (\<lambda>st. concat (map m2 (m1 st)))"

text \<open>\<open>(?:r)?\<close>: greedy, the match of \<open>r\<close> is tried before the empty match.\<close>

definition opt :: "matcher \<Rightarrow> matcher" where
  "opt m = (\<lambda>st. m st @ [st])"

text \<open>\<open>c*\<close> on a character class: greedy, the longest run is tried first.\<close>

fun star_run :: "(jschar \<Rightarrow> bool) \<Rightarrow> jsstring \<Rightarrow> jsstring list" where
  "star_run p [] = [[]]"
| "star_run p (x # xs) = (if p x then star_run p xs @ [x # xs] else [x # xs])"

definition star :: "(jschar \<Rightarrow> bool) \<Rightarrow> matcher" where
  "star p = (\<lambda>(s, g). map (\<lambda>r. (r, g)) (star_run p s))"

text \<open>\<open>c+\<close>: one character of the class, then \<open>c*\<close>.\<close>

definition plus :: "(jschar \<Rightarrow> bool) \<Rightarrow> matcher" where
  "plus p = seq (cls p) (star p)"

text \<open>\<open>c*?\<close> and \<open>c+?\<close>: lazy, the shortest run is tried first.\<close>

fun lazy_run :: "(jschar \<Rightarrow> bool) \<Rightarrow> jsstring \<Rightarrow> jsstring list" where
  "lazy_run p [] = [[]]"
| "lazy_run p (x # xs) = (x # xs) # (if p x then lazy_run p xs else [])"

definition lazy_star :: "(jschar \<Rightarrow> bool) \<Rightarrow> matcher" where
  "lazy_star p = (\<lambda>(s, g). map (\<lambda>r. (r, g)) (lazy_run p s))"

definition lazy_plus :: "(jschar \<Rightarrow> bool) \<Rightarrow> matcher" where
  "lazy_plus p = seq (cls p) (lazy_star p)"

text \<open>\<open>c{n}\<close>: exactly \<open>n\<close> characters of the class.\<close>

fun rep :: "nat \<Rightarrow> (jschar \<Rightarrow> bool) \<Rightarrow> matcher" where
  "rep 0 p = (\<lambda>st. [st])"
| "rep (Suc n) p = seq (cls p) (rep n p)"

text \<open>The capturing group 1: it records the text that its pattern consumed.\<close>

definition group :: "matcher \<Rightarrow> matcher" where
  "group m = (\<lambda>(s, g). map (\<lambda>(s', g'). (s', Some (take (length s - length s') s))) (m (s, g)))"

text \<open>
  \<open>s.match(re)\<close> for a pattern without the \<open>g\<close> flag: the pattern is tried at the
  start indices 0, 1, ..., \<open>length s\<close>; the result is the first index with a match,
  with the state of the first match there, or \<open>null\<close>.
\<close>

fun match_from :: "matcher \<Rightarrow> jsstring \<Rightarrow> nat \<Rightarrow> (nat \<times> mstate) option" where
  "match_from m [] i = (case m ([], None) of r # _ \<Rightarrow> Some (i, r) | [] \<Rightarrow> None)"
| "match_from m (x # xs) i =
     (case m (x # xs, None) of r # _ \<Rightarrow> Some (i, r) | [] \<Rightarrow> match_from m xs (Suc i))"

definition js_match :: "jsstring \<Rightarrow> matcher \<Rightarrow> (nat \<times> mstate) option" where
  "js_match s m = match_from m s 0"

section \<open>The two patterns of generateSrtFromAudio\<close>

text \<open>The pattern \<^verbatim>\<open>/```(?:srt)?\s*\n([\s\S]+?)\n```/\<close>.\<close>

definition markdown_re :: matcher where
  "markdown_re =
     seq (lit (js ''```'')) (seq (opt (lit (js ''srt''))) (seq (star is_space) (seq (cls is_lf)
       (seq (group (lazy_plus is_any)) (lit (js ''\<newline>```''))))))"

text \<open>\<^verbatim>\<open>\d{2}:\d{2}:\d{2}[,.]\d{3}\<close>, which the second pattern has twice.\<close>

definition timestamp_re :: matcher where
  "timestamp_re =
     seq (rep 2 is_digit) (seq (lit (js '':'')) (seq (rep 2 is_digit) (seq (lit (js '':''))
       (seq (rep 2 is_digit) (seq (cls is_sep) (rep 3 is_digit))))))"

text \<open>
  The pattern \<^verbatim>\<open>/\d+\s*\n\d{2}:\d{2}:\d{2}[,.]\d{3} --> \d{2}:\d{2}:\d{2}[,.]\d{3}/m\<close>.
  The flag \<open>m\<close> changes \<open>^\<close> and \<open>$\<close> only, and the pattern has neither.
\<close>

definition srt_block_re :: matcher where
  "srt_block_re =
     seq (plus is_digit) (seq (star is_space) (seq (cls is_lf)
       (seq timestamp_re (seq (lit (js '' --> '')) timestamp_re))))"

section \<open>The remote service\<close>

text \<open>
  A \<open>throw\<close> or a rejected promise carries any value. The handlers of this program
  ask one thing of it: whether it is an \<open>Error\<close>, and then they read its message.
\<close>

datatype thrown = Error (error_message: jsstring) | NonError

datatype language = Original | English

datatype request =
  Request (model: jsstring) (textPart: jsstring) (audioData: jsstring) (audioMimeType: jsstring)

text \<open>
  What the program reads of a response. \<open>response_text\<close> is the outcome of
  \<open>response.text.trim()\<close> before the trimming: the generated text, or the value
  thrown (by the accessor, which can throw when the response is blocked, or by
  \<open>trim\<close> when the accessor gives \<open>undefined\<close>, a \<open>TypeError\<close>). \<open>finishReason\<close> is
  \<open>response.candidates?.[0]?.finishReason\<close>, which is \<open>undefined\<close> when there is
  no candidate or no finish reason.
\<close>

record response =
  response_text :: "thrown + jsstring"
  finishReason :: "jsstring option"

text \<open>\<open>await ai.models.generateContent(...)\<close>: it returns a response or throws.\<close>

type_synonym service = "request \<Rightarrow> thrown + response"

section \<open>generateSrtFromAudio\<close>

definition instruction :: "language \<Rightarrow> jsstring" where
  "instruction targetLanguage =
     (if targetLanguage = English
      then js ''You are an expert audio transcriber and translator. Your primary task is to generate ENGLISH subtitles for the provided audio. The audio's original language may not be English. You must first transcribe the audio and then accurately translate it into English. Format the final translated English text as a standard SubRip (.srt) file.''
      else js ''You are an expert audio transcriber. Your task is to transcribe the given audio and format the output as a standard SubRip (.srt) file. The transcription must be in the original language spoken in the audio.'')"

definition textPart_of :: "language \<Rightarrow> jsstring" where
  "textPart_of targetLanguage =
     instruction targetLanguage @
     js ''\<newline>- Ensure timestamps are accurate (HH:MM:SS,ms) and correspond to the original audio's timing.\<newline>- The format must be strictly SRT.\<newline>- Do not include any additional explanatory text, greetings, apologies, or markdown formatting. Only the raw SRT content is allowed.\<newline>\<newline>Example of the required format:\<newline>1\<newline>00:00:01,234 --> 00:00:03,456\<newline>This is the first subtitle.\<newline>\<newline>2\<newline>00:00:04,567 --> 00:00:06,789\<newline>This is the second subtitle.\<newline>''"

definition safety_message :: jsstring where
  "safety_message =
     js ''The request was blocked due to safety concerns. The audio may contain sensitive content.''"

definition no_valid_srt_message :: jsstring where
  "no_valid_srt_message =
     js ''The model did not return a valid SRT format. It might have refused the request or failed to process the audio.''"

definition api_error_prefix :: jsstring where
  "api_error_prefix = js ''Gemini API Error: ''"

definition unknown_error_message :: jsstring where
  "unknown_error_message =
     js ''An unknown error occurred while communicating with the AI model.''"

text \<open>
  Step 1 of the parsing: the content of the first markdown block, trimmed, when the
  first pattern matches and its group is not the empty string.
\<close>

definition markdown_unwrap :: "jsstring \<Rightarrow> jsstring" where
  "markdown_unwrap srtContent =
     (case js_match srtContent markdown_re of
        Some (i, (r, Some g)) \<Rightarrow> if g \<noteq> [] then trim g else srtContent
      | _ \<Rightarrow> srtContent)"

text \<open>The text that the second pattern is run on.\<close>

definition cleaned :: "jsstring \<Rightarrow> jsstring" where
  "cleaned t = markdown_unwrap (trim t)"

text \<open>
  The body of the \<open>try\<close> block, from the response on: it returns the subtitles or
  throws.
\<close>

definition parse_response :: "response \<Rightarrow> thrown + jsstring" where
  "parse_response resp =
     (case response_text resp of
        Inl e \<Rightarrow> Inl e
      | Inr t \<Rightarrow>
          (let srtContent = cleaned t in
           case js_match srtContent srt_block_re of
             Some (i, r) \<Rightarrow> Inr (substring srtContent i)
           | None \<Rightarrow>
               if finishReason resp = Some (js ''SAFETY'') then Inl (Error safety_message)
               else Inl (Error no_valid_srt_message)))"

text \<open>The \<open>catch\<close> block: every thrown value is replaced by a new \<open>Error\<close>.\<close>

definition rethrow :: "thrown \<Rightarrow> thrown" where
  "rethrow e =
     (case e of
        Error m \<Rightarrow> Error (api_error_prefix @ m)
      | NonError \<Rightarrow> Error unknown_error_message)"

text \<open>The \<open>try\<close> block: the request, the call of the service, the parsing.\<close>

definition try_block ::
  "service \<Rightarrow> jsstring \<Rightarrow> jsstring \<Rightarrow> language \<Rightarrow> thrown + jsstring" where
  "try_block generateContent base64Audio mimeType targetLanguage =
     (case generateContent
             (Request (js ''gemini-2.5-flash'') (textPart_of targetLanguage) base64Audio mimeType) of
        Inl e \<Rightarrow> Inl e
      | Inr resp \<Rightarrow> parse_response resp)"

definition generateSrtFromAudio ::
  "service \<Rightarrow> jsstring \<Rightarrow> jsstring \<Rightarrow> language \<Rightarrow> thrown + jsstring" where
  "generateSrtFromAudio generateContent base64Audio mimeType targetLanguage =
     (case try_block generateContent base64Audio mimeType targetLanguage of
        Inl e \<Rightarrow> Inl (rethrow e)
      | Inr srt \<Rightarrow> Inr srt)"

text \<open>Two services for stating properties: one answers every request with the
  same response, the other throws the same value at every request.\<close>

definition answering :: "response \<Rightarrow> service" where
  "answering resp = (\<lambda>req. Inr resp)"

definition failing :: "thrown \<Rightarrow> service" where
  "failing e = (\<lambda>req. Inl e)"

section \<open>Reading the file\<close>

text \<open>
  What the \<open>FileReader\<close> does after \<open>readAsDataURL\<close>: it fires \<open>load\<close> with the
  data URL in \<open>reader.result\<close>, or \<open>error\<close>, whose event object is not an \<open>Error\<close>.
\<close>

datatype reader_event = OnLoad jsstring | OnError

text \<open>The data URL of a file of MIME type \<open>ty\<close> whose bytes encode to \<open>payload\<close>:
  \<^verbatim>\<open>data:audio/mpeg;base64,.....\<close>; the payload of a file without bytes is empty.\<close>

definition dataURL :: "jsstring \<Rightarrow> jsstring \<Rightarrow> jsstring" where
  "dataURL ty payload = js ''data:'' @ ty @ js '';base64,'' @ payload"

definition read_failure_message :: jsstring where
  "read_failure_message = js ''Failed to read file as base64.''"

text \<open>\<open>result.split(',')[1]\<close> is \<open>undefined\<close> when there is no second piece; \<open>undefined\<close>
  and the empty string are both falsy.\<close>

definition fileToBase64 :: "reader_event \<Rightarrow> thrown + jsstring" where
  "fileToBase64 ev =
     (case ev of
        OnLoad result \<Rightarrow>
          (case split 0x2C result of
             p # base64String # ps \<Rightarrow>
               if base64String \<noteq> [] then Inr base64String else Inl (Error read_failure_message)
           | _ \<Rightarrow> Inl (Error read_failure_message))
      | OnError \<Rightarrow> Inl NonError)"

section \<open>The duration of the audio\<close>

text \<open>A JavaScript number, as far as the comparison with 60 needs it.\<close>

datatype jsnumber = Num real | PosInfinity | NegInfinity | NaN

fun number_gt :: "jsnumber \<Rightarrow> real \<Rightarrow> bool" where
  "number_gt (Num x) y = (y < x)"
| "number_gt PosInfinity y = True"
| "number_gt NegInfinity y = False"
| "number_gt NaN y = False"

text \<open>What the \<open>audio\<close> element does after its \<open>src\<close> is set: it fires
  \<open>loadedmetadata\<close>, and then \<open>audio.duration\<close> is read, or \<open>error\<close>, with the text
  that \<open>e.message\<close> gives in the template string.\<close>

datatype media_event = LoadedMetadata jsnumber | MediaError jsstring

definition getAudioDuration :: "media_event \<Rightarrow> thrown + jsnumber" where
  "getAudioDuration ev =
     (case ev of
        LoadedMetadata duration \<Rightarrow> Inr duration
      | MediaError m \<Rightarrow> Inl (Error (js ''Failed to load audio metadata. Error: '' @ m)))"

section \<open>The application\<close>

datatype app_mode = Upload | Record

record audio_file =
  file_name :: jsstring
  file_type :: jsstring

record app_state =
  mode :: app_mode
  audioFile :: "audio_file option"
  audioDuration :: jsnumber
  srtContent :: jsstring
  isLoading :: bool
  error :: jsstring
  targetLanguage :: language

definition handleAudioFileChange :: "media_event \<Rightarrow> audio_file option \<Rightarrow> app_state \<Rightarrow> app_state" where
  "handleAudioFileChange ev f st =
     (case f of
        None \<Rightarrow> st
      | Some a \<Rightarrow>
          (let st1 = st\<lparr>audioFile := Some a, srtContent := [], error := [],
                        targetLanguage := Original\<rparr>
           in case getAudioDuration ev of
                Inr duration \<Rightarrow> st1\<lparr>audioDuration := duration\<rparr>
              | Inl err \<Rightarrow> st1\<lparr>audioDuration := Num 0\<rparr>))"

text \<open>The sentence that the \<open>catch\<close> block of \<open>processAudio\<close> chooses;
  \<open>message\<close> is \<open>err.message.toLowerCase()\<close>.\<close>

definition errorMessage_of :: "(jsstring \<Rightarrow> jsstring) \<Rightarrow> thrown \<Rightarrow> jsstring" where
  "errorMessage_of toLowerCase err =
     (case err of
        NonError \<Rightarrow> js ''An unexpected error occurred. Please try again.''
      | Error m \<Rightarrow>
          (let message = toLowerCase m in
           if includes_str message (js ''unsupported content'') \<or>
              includes_str message (js ''invalid argument'')
           then js ''The audio format is not supported. Please use a common format like WAV, MP3, or WEBM.''
           else if includes_str message (js ''too long'') \<or>
              includes_str message (js ''payload size'')
           then js ''The audio file is too large or too long. Please use a smaller file.''
           else if includes_str message (js ''did not return a valid srt format'')
           then js ''The AI could not process the audio. It might be silent, contain unsupported content, or be too complex.''
           else if includes_str message (js ''safety concerns'')
           then js ''Could not generate subtitles as the audio content was flagged for safety reasons.''
           else if includes_str message (js ''gemini api error'')
           then js ''There was a problem with the AI service. Please try again later.''
           else js ''An unexpected error occurred. Please try again.''))"

text \<open>
  \<open>processAudio\<close> is a closure of one rendering: \<open>audioFile\<close>, \<open>srtContent\<close> and
  \<open>targetLanguage\<close> in its body are the values of that rendering, \<open>rendered\<close>, and
  its \<open>set...\<close> calls update the state \<open>st\<close>.
\<close>

definition processAudio ::
  "(jsstring \<Rightarrow> jsstring) \<Rightarrow> app_state \<Rightarrow> reader_event \<Rightarrow> service \<Rightarrow> language \<Rightarrow>
     app_state \<Rightarrow> app_state" where
  "processAudio toLowerCase rendered reading generateContent lang st =
     (case audioFile rendered of
        None \<Rightarrow> st\<lparr>error := js ''An audio file is required to generate subtitles.''\<rparr>
      | Some a \<Rightarrow>
          (let st1 = st\<lparr>isLoading := True, error := [], srtContent := []\<rparr>;
               attempt =
                 (case fileToBase64 reading of
                    Inl e \<Rightarrow> Inl e
                  | Inr base64Audio \<Rightarrow>
                      generateSrtFromAudio generateContent base64Audio (file_type a) lang);
               st2 =
                 (case attempt of
                    Inr result \<Rightarrow> st1\<lparr>srtContent := result, targetLanguage := lang\<rparr>
                  | Inl err \<Rightarrow>
                      (if srtContent rendered \<noteq> []
                       then st1\<lparr>targetLanguage := targetLanguage rendered\<rparr>
                       else st1)\<lparr>error := errorMessage_of toLowerCase err\<rparr>)
           in st2\<lparr>isLoading := False\<rparr>))"

text \<open>The \<open>Loader\<close> shows its hint for longer audio when \<open>audioDuration > 60\<close>.\<close>

definition long_audio_hint :: "jsnumber \<Rightarrow> bool" where
  "long_audio_hint d = number_gt d 60"

section \<open>The languages of the patterns\<close>

text \<open>
  The set of strings that a pattern denotes, independent of how the matcher finds them:
  concatenation, one character of a class, runs of a class. \<open>accepts m L\<close> says that
  the matcher \<open>m\<close> finds exactly the prefixes of its input that are in \<open>L\<close>, and
  leaves the captured group as it is.
\<close>

definition conc :: "jsstring set \<Rightarrow> jsstring set \<Rightarrow> jsstring set" where
  "conc A B = {u @ v | u v. u \<in> A \<and> v \<in> B}"

definition one :: "(jschar \<Rightarrow> bool) \<Rightarrow> jsstring set" where
  "one p = {[x] | x. p x}"

definition many :: "(jschar \<Rightarrow> bool) \<Rightarrow> jsstring set" where
  "many p = {w. \<forall>x \<in> set w. p x}"

definition many1 :: "(jschar \<Rightarrow> bool) \<Rightarrow> jsstring set" where
  "many1 p = {w. w \<noteq> [] \<and> (\<forall>x \<in> set w. p x)}"

definition exactly :: "nat \<Rightarrow> (jschar \<Rightarrow> bool) \<Rightarrow> jsstring set" where
  "exactly n p = {w. length w = n \<and> (\<forall>x \<in> set w. p x)}"

text \<open>The strings \<^verbatim>\<open>\d{2}:\d{2}:\d{2}[,.]\d{3}\<close>.\<close>

definition timestamp_lang :: "jsstring set" where
  "timestamp_lang =
     conc (exactly 2 is_digit) (conc {js '':''} (conc (exactly 2 is_digit) (conc {js '':''}
       (conc (exactly 2 is_digit) (conc (one is_sep) (exactly 3 is_digit))))))"

text \<open>
  The cue headers, that is the strings of the second pattern: one or more digits,
  any whitespace, a line break, a timestamp, \<^verbatim>\<open> --> \<close> and a timestamp.
\<close>

definition cue_header_lang :: "jsstring set" where
  "cue_header_lang =
     conc (many1 is_digit) (conc (many is_space) (conc (one is_lf)
       (conc timestamp_lang (conc {js '' --> ''} timestamp_lang))))"

text \<open>A cue header starts the string; a cue header is a substring of the string.\<close>

definition starts_with_cue_header :: "jsstring \<Rightarrow> bool" where
  "starts_with_cue_header s \<longleftrightarrow> (\<exists>w r. s = w @ r \<and> w \<in> cue_header_lang)"

definition has_cue_header :: "jsstring \<Rightarrow> bool" where
  "has_cue_header s \<longleftrightarrow> (\<exists>pre w post. s = pre @ w @ post \<and> w \<in> cue_header_lang)"

text \<open>The strings \<^verbatim>\<open>```(?:srt)?\s*\n\<close>, with which a match of the first pattern begins.\<close>

definition fence_open_lang :: "jsstring set" where
  "fence_open_lang =
     conc {js ''```''} (conc (insert [] {js ''srt''}) (conc (many is_space) (one is_lf)))"

definition accepts :: "matcher \<Rightarrow> jsstring set \<Rightarrow> bool" where
  "accepts m L \<longleftrightarrow>
     (\<forall>s g s' g'. (s', g') \<in> set (m (s, g)) \<longleftrightarrow> g' = g \<and> (\<exists>w \<in> L. s = w @ s'))"

text \<open>A timestamp \<open>HH:MM:SS\<close>, the separator \<open>sep\<close>, \<open>mmm\<close>.\<close>

definition timestamp_with :: "jschar \<Rightarrow> jsstring \<Rightarrow> bool" where
  "timestamp_with sep t \<longleftrightarrow>
     (\<exists>hh mm ss mmm. t = hh @ js '':'' @ mm @ js '':'' @ ss @ [sep] @ mmm \<and>
        hh \<in> exactly 2 is_digit \<and> mm \<in> exactly 2 is_digit \<and> ss \<in> exactly 2 is_digit \<and>
        mmm \<in> exactly 3 is_digit)"

text \<open>
  Two code units are the same but for the separator when they are equal or both are
  a comma or a period; two strings, when they are so unit by unit. A matcher is
  blind to the separator when it does to two such inputs the same, up to the
  separators.
\<close>

definition same_unit :: "jschar \<Rightarrow> jschar \<Rightarrow> bool" where
  "same_unit a b \<longleftrightarrow> a = b \<or> (is_sep a \<and> is_sep b)"

definition same_but_separators :: "jsstring \<Rightarrow> jsstring \<Rightarrow> bool" where
  "same_but_separators = list_all2 same_unit"

definition same_state :: "mstate \<Rightarrow> mstate \<Rightarrow> bool" where
  "same_state = rel_prod same_but_separators (rel_option same_but_separators)"

definition sep_blind :: "matcher \<Rightarrow> bool" where
  "sep_blind m \<longleftrightarrow> (\<forall>st st'. same_state st st' \<longrightarrow> list_all2 same_state (m st) (m st'))"

definition class_sep_blind :: "(jschar \<Rightarrow> bool) \<Rightarrow> bool" where
  "class_sep_blind p \<longleftrightarrow> (\<forall>a b. same_unit a b \<longrightarrow> p a = p b)"

section \<open>The matchers find the languages\<close>

lemma starts_with_iff: "starts_with s w \<longleftrightarrow> (\<exists>r. s = w @ r)"
  by (induction s w rule: starts_with.induct) auto

lemma accepts_lit: "accepts (lit w) {w}"
  by (auto simp: accepts_def lit_def starts_with_iff)

lemma accepts_cls: "accepts (cls p) (one p)"
  by (auto simp: accepts_def cls_def one_def split: list.splits if_splits)

lemma accepts_seq:
  assumes "accepts m1 A" and "accepts m2 B"
  shows "accepts (seq m1 m2) (conc A B)"
  unfolding accepts_def seq_def conc_def
proof (intro allI iffI)
  fix s g s' g'
  assume "(s', g') \<in> set (concat (map m2 (m1 (s, g))))"
  then obtain st where st: "st \<in> set (m1 (s, g))" and r: "(s', g') \<in> set (m2 st)"
    by auto
  obtain t h where [simp]: "st = (t, h)" by (cases st)
  from st assms(1) obtain u where "h = g" "u \<in> A" "s = u @ t"
    by (auto simp: accepts_def)
  moreover from r assms(2) obtain v where "g' = h" "v \<in> B" "t = v @ s'"
    by (auto simp: accepts_def)
  ultimately show "g' = g \<and> (\<exists>w \<in> {u @ v | u v. u \<in> A \<and> v \<in> B}. s = w @ s')"
    by auto
next
  fix s s' :: jsstring and g g' :: "jsstring option"
  assume "g' = g \<and> (\<exists>w \<in> {u @ v | u v. u \<in> A \<and> v \<in> B}. s = w @ s')"
  then obtain u v where g: "g' = g" and u: "u \<in> A" and v: "v \<in> B" and s: "s = (u @ v) @ s'"
    by auto
  from u s assms(1) have "(v @ s', g) \<in> set (m1 (s, g))"
    by (auto simp: accepts_def)
  moreover from v assms(2) have "(s', g) \<in> set (m2 (v @ s', g))"
    by (auto simp: accepts_def)
  ultimately show "(s', g') \<in> set (concat (map m2 (m1 (s, g))))"
    using g by auto
qed

lemma accepts_opt: "accepts m A \<Longrightarrow> accepts (opt m) (insert [] A)"
  by (auto simp: accepts_def opt_def)

lemma set_star_run: "set (star_run p s) = {r. \<exists>w. s = w @ r \<and> (\<forall>x \<in> set w. p x)}"
proof (induction s)
  case Nil
  then show ?case by auto
next
  case (Cons a s)
  show ?case
  proof (intro set_eqI iffI)
    fix r assume "r \<in> set (star_run p (a # s))"
    then consider "r = a # s" | "p a" "r \<in> set (star_run p s)"
      by (auto split: if_splits)
    then show "r \<in> {r. \<exists>w. a # s = w @ r \<and> (\<forall>x \<in> set w. p x)}"
    proof cases
      case 1
      then show ?thesis by auto
    next
      case 2
      with Cons obtain w where "s = w @ r" "\<forall>x \<in> set w. p x" by auto
      with 2 have "a # s = (a # w) @ r \<and> (\<forall>x \<in> set (a # w). p x)" by auto
      then show ?thesis by blast
    qed
  next
    fix r assume "r \<in> {r. \<exists>w. a # s = w @ r \<and> (\<forall>x \<in> set w. p x)}"
    then obtain w where w: "a # s = w @ r" "\<forall>x \<in> set w. p x" by auto
    show "r \<in> set (star_run p (a # s))"
    proof (cases w)
      case Nil
      with w show ?thesis by auto
    next
      case (Cons b w')
      with w have "p a" "s = w' @ r" "\<forall>x \<in> set w'. p x" by auto
      with Cons.IH have "r \<in> set (star_run p s)" by auto
      with \<open>p a\<close> show ?thesis by auto
    qed
  qed
qed

lemma accepts_star: "accepts (star p) (many p)"
  by (auto simp: accepts_def star_def set_star_run many_def)

lemma set_lazy_run: "set (lazy_run p s) = set (star_run p s)"
  by (induction s) auto

lemma accepts_lazy_star: "accepts (lazy_star p) (many p)"
  by (auto simp: accepts_def lazy_star_def set_lazy_run set_star_run many_def)

lemma accepts_rep: "accepts (rep n p) (exactly n p)"
proof (induction n)
  case 0
  then show ?case by (auto simp: accepts_def exactly_def)
next
  case (Suc n)
  have "accepts (rep (Suc n) p) (conc (one p) (exactly n p))"
    using accepts_seq [OF accepts_cls Suc] by simp
  moreover have "conc (one p) (exactly n p) = exactly (Suc n) p"
  proof (intro set_eqI iffI)
    fix w assume "w \<in> conc (one p) (exactly n p)"
    then show "w \<in> exactly (Suc n) p" by (auto simp: conc_def exactly_def one_def)
  next
    fix w assume "w \<in> exactly (Suc n) p"
    then obtain x v where "w = [x] @ v" "p x" "length v = n" "\<forall>y \<in> set v. p y"
      by (auto simp: exactly_def length_Suc_conv)
    then show "w \<in> conc (one p) (exactly n p)"
      unfolding conc_def exactly_def one_def by blast
  qed
  ultimately show ?case by simp
qed


lemma accepts_plus: "accepts (plus p) (many1 p)"
proof -
  have "accepts (plus p) (conc (one p) (many p))"
    unfolding plus_def by (rule accepts_seq [OF accepts_cls accepts_star])
  moreover have "conc (one p) (many p) = many1 p"
  proof (intro set_eqI iffI)
    fix w assume "w \<in> conc (one p) (many p)"
    then show "w \<in> many1 p" by (auto simp: conc_def one_def many_def many1_def)
  next
    fix w assume "w \<in> many1 p"
    then obtain x v where "w = [x] @ v" "p x" "\<forall>y \<in> set v. p y"
      by (cases w) (auto simp: many1_def)
    then show "w \<in> conc (one p) (many p)"
      unfolding conc_def one_def many_def by blast
  qed
  ultimately show ?thesis by simp
qed

lemma accepts_timestamp_re: "accepts timestamp_re timestamp_lang"
  unfolding timestamp_re_def timestamp_lang_def
  by (intro accepts_seq accepts_rep accepts_lit accepts_cls)

lemma accepts_srt_block_re: "accepts srt_block_re cue_header_lang"
  unfolding srt_block_re_def cue_header_lang_def
  by (intro accepts_seq accepts_plus accepts_star accepts_cls accepts_lit accepts_timestamp_re)

lemma accepts_nonempty:
  assumes "accepts m L"
  shows "m (s, g) \<noteq> [] \<longleftrightarrow> (\<exists>w r. s = w @ r \<and> w \<in> L)"
proof
  assume "m (s, g) \<noteq> []"
  then obtain st where "st \<in> set (m (s, g))" by (cases "m (s, g)") auto
  with assms show "\<exists>w r. s = w @ r \<and> w \<in> L"
    by (cases st) (auto simp: accepts_def)
next
  assume "\<exists>w r. s = w @ r \<and> w \<in> L"
  then obtain w r where "s = w @ r" "w \<in> L" by auto
  with assms have "(r, g) \<in> set (m (s, g))" by (auto simp: accepts_def)
  then show "m (s, g) \<noteq> []" by auto
qed

lemma srt_block_re_nonempty:
  "srt_block_re (s, None) \<noteq> [] \<longleftrightarrow> starts_with_cue_header s"
  by (simp add: accepts_nonempty [OF accepts_srt_block_re] starts_with_cue_header_def)

lemma match_from_None:
  "match_from m s i = None \<longleftrightarrow> (\<forall>k \<le> length s. m (drop k s, None) = [])"
proof (induction s arbitrary: i)
  case Nil
  then show ?case by (auto split: list.splits)
next
  case (Cons x xs)
  have "(\<forall>k \<le> length (x # xs). m (drop k (x # xs), None) = []) \<longleftrightarrow>
        m (x # xs, None) = [] \<and> (\<forall>k \<le> length xs. m (drop k xs, None) = [])"
  proof (intro iffI conjI allI impI)
    fix k assume a: "\<forall>k \<le> length (x # xs). m (drop k (x # xs), None) = []" and k: "k \<le> length xs"
    from a k have "m (drop (Suc k) (x # xs), None) = []" by (metis Suc_le_mono length_Cons)
    then show "m (drop k xs, None) = []" by simp
  next
    assume a: "\<forall>k \<le> length (x # xs). m (drop k (x # xs), None) = []"
    then have "m (drop 0 (x # xs), None) = []" by blast
    then show "m (x # xs, None) = []" by simp
  next
    fix k assume a: "m (x # xs, None) = [] \<and> (\<forall>k \<le> length xs. m (drop k xs, None) = [])"
      and k: "k \<le> length (x # xs)"
    show "m (drop k (x # xs), None) = []"
      using a k by (cases k) auto
  qed
  with Cons show ?case by (auto split: list.splits)
qed

lemma match_from_Some:
  assumes "match_from m s i = Some (j, st)"
  shows "\<exists>k \<le> length s. j = i + k \<and> m (drop k s, None) \<noteq> [] \<and> st = hd (m (drop k s, None)) \<and>
           (\<forall>k' < k. m (drop k' s, None) = [])"
  using assms
proof (induction s arbitrary: i)
  case Nil
  then show ?case by (auto split: list.splits)
next
  case (Cons x xs)
  show ?case
  proof (cases "m (x # xs, None)")
    case Nil
    with Cons.prems have "match_from m xs (Suc i) = Some (j, st)" by simp
    from Cons.IH [OF this] obtain k where k: "k \<le> length xs" "j = Suc i + k"
      "m (drop k xs, None) \<noteq> []" "st = hd (m (drop k xs, None))"
      "\<forall>k' < k. m (drop k' xs, None) = []" by blast
    have "\<forall>k' < Suc k. m (drop k' (x # xs), None) = []"
    proof (intro allI impI)
      fix k' assume "k' < Suc k"
      then show "m (drop k' (x # xs), None) = []"
        using Nil k(5) by (cases k') auto
    qed
    with k show ?thesis
      by (intro exI [of _ "Suc k"]) auto
  next
    case (Cons r rs)
    with Cons.prems show ?thesis
      by (intro exI [of _ 0]) auto
  qed
qed

lemma match_from_first:
  assumes "k \<le> length s" and "m (drop k s, None) \<noteq> []"
    and "\<forall>k' < k. m (drop k' s, None) = []"
  shows "match_from m s i = Some (i + k, hd (m (drop k s, None)))"
proof (cases "match_from m s i")
  case None
  with assms(1,2) show ?thesis by (simp add: match_from_None)
next
  case (Some a)
  obtain j st where a: "a = (j, st)" by (cases a)
  from match_from_Some [OF Some [unfolded a]] obtain k0 where k0: "k0 \<le> length s" "j = i + k0"
    "m (drop k0 s, None) \<noteq> []" "st = hd (m (drop k0 s, None))"
    "\<forall>k' < k0. m (drop k' s, None) = []" by blast
  have "k0 = k"
    using assms(2,3) k0(3,5) by (metis linorder_neqE_nat)
  with Some a k0 show ?thesis by simp
qed

section \<open>Trimming and searching\<close>

lemma digit_not_space: "is_digit c \<Longrightarrow> \<not> is_space c"
  unfolding is_digit_def is_space_def by (auto simp: word_le_nat_alt)

lemma lf_is_space: "is_lf c \<Longrightarrow> is_space c"
  by (simp add: is_lf_def is_space_def)

lemma trim_Nil_or: "trim s = [] \<or> (\<not> is_space (hd (trim s)) \<and> \<not> is_space (last (trim s)))"
proof (cases "trim s = []")
  case True
  then show ?thesis by simp
next
  case False
  let ?a = "dropWhile is_space s"
  let ?b = "dropWhile is_space (rev ?a)"
  from False have b: "?b \<noteq> []" by (simp add: trim_def)
  then have hb: "\<not> is_space (hd ?b)" by (rule hd_dropWhile)
  have "last (trim s) = hd ?b" using b by (simp add: trim_def last_rev)
  with hb have l: "\<not> is_space (last (trim s))" by simp
  have a: "?a \<noteq> []"
  proof
    assume e: "?a = []"
    have "?b = []" unfolding e by simp
    with b show False by blast
  qed
  then have ha: "\<not> is_space (hd ?a)" by (rule hd_dropWhile)
  obtain x xs where ax: "?a = x # xs" using a by (cases ?a) auto
  with ha have nx: "\<not> is_space x" by simp
  have "rev ?a = rev xs @ [x]" using ax by simp
  then have "?b = dropWhile is_space (rev xs) @ [x] \<or> ?b = [x]"
    using nx by (simp add: dropWhile_append split: if_splits)
  then have "last ?b = x" by auto
  then have "hd (trim s) = x" using b by (simp add: trim_def hd_rev)
  with nx l show ?thesis by simp
qed

lemma trim_id:
  assumes "s \<noteq> []" and "\<not> is_space (hd s)" and "\<not> is_space (last s)"
  shows "trim s = s"
proof -
  from assms(1,2) have "dropWhile is_space s = s" by (cases s) auto
  moreover from assms(1,3) have "dropWhile is_space (rev s) = rev s"
    by (cases "rev s") (auto simp: last_rev)
  ultimately show ?thesis by (simp add: trim_def)
qed

lemma trim_trim: "trim (trim s) = trim s"
  using trim_Nil_or [of s] by (cases "trim s = []") (auto simp: trim_id, simp add: trim_def)

lemma cleaned_is_trimmed: "trim (cleaned t) = cleaned t"
  by (auto simp: cleaned_def markdown_unwrap_def trim_trim split: option.splits prod.splits)

lemma cue_header_lang_hd: "w \<in> cue_header_lang \<Longrightarrow> w \<noteq> [] \<and> is_digit (hd w)"
  by (auto simp: cue_header_lang_def conc_def many1_def)

lemma has_cue_header_iff:
  "has_cue_header s \<longleftrightarrow> (\<exists>k \<le> length s. starts_with_cue_header (drop k s))"
proof
  assume "has_cue_header s"
  then obtain pre w post where "s = pre @ w @ post" "w \<in> cue_header_lang"
    by (auto simp: has_cue_header_def)
  then have "length pre \<le> length s \<and> starts_with_cue_header (drop (length pre) s)"
    by (auto simp: starts_with_cue_header_def)
  then show "\<exists>k \<le> length s. starts_with_cue_header (drop k s)" by blast
next
  assume "\<exists>k \<le> length s. starts_with_cue_header (drop k s)"
  then obtain k w r where "drop k s = w @ r" "w \<in> cue_header_lang"
    by (auto simp: starts_with_cue_header_def)
  then have "s = take k s @ w @ r \<and> w \<in> cue_header_lang"
    by (metis append_take_drop_id)
  then show "has_cue_header s" unfolding has_cue_header_def by blast
qed

lemma srt_block_re_empty:
  "srt_block_re (s, None) = [] \<longleftrightarrow> \<not> starts_with_cue_header s"
  using srt_block_re_nonempty [of s] by blast

lemma js_match_srt_None:
  "js_match s srt_block_re = None \<longleftrightarrow> \<not> has_cue_header s"
  by (simp add: js_match_def match_from_None srt_block_re_empty has_cue_header_iff)

lemma js_match_srt_Some:
  assumes "js_match s srt_block_re = Some (i, st)"
  shows "i \<le> length s \<and> starts_with_cue_header (drop i s) \<and>
         (\<forall>k < i. \<not> starts_with_cue_header (drop k s))"
  using match_from_Some [OF assms [unfolded js_match_def]]
  by (auto simp: srt_block_re_nonempty srt_block_re_empty)

lemma js_match_srt_has:
  assumes "s = pre @ w @ post" and "w \<in> cue_header_lang"
  shows "\<exists>i st. i \<le> length pre \<and> js_match s srt_block_re = Some (i, st)"
proof (cases "js_match s srt_block_re")
  case None
  have "has_cue_header s" unfolding has_cue_header_def using assms by blast
  with None show ?thesis by (simp add: js_match_srt_None)
next
  case (Some a)
  obtain i st where a: "a = (i, st)" by (cases a)
  from js_match_srt_Some [OF Some [unfolded a]]
  have *: "\<forall>k < i. \<not> starts_with_cue_header (drop k s)" by simp
  have "starts_with_cue_header (drop (length pre) s)"
    using assms by (auto simp: starts_with_cue_header_def)
  with * have "i \<le> length pre" by (meson not_le_imp_less)
  with Some a show ?thesis by simp
qed

section \<open>Parsing the response\<close>

lemma generate_answering:
  "generateSrtFromAudio (answering resp) b m l =
     (case parse_response resp of Inl e \<Rightarrow> Inl (rethrow e) | Inr srt \<Rightarrow> Inr srt)"
  by (simp add: generateSrtFromAudio_def try_block_def answering_def)

lemma parse_response_no_header:
  assumes "response_text resp = Inr t" and "\<not> has_cue_header (cleaned t)"
  shows "parse_response resp =
    (if finishReason resp = Some (js ''SAFETY'') then Inl (Error safety_message)
     else Inl (Error no_valid_srt_message))"
  using assms by (simp add: parse_response_def js_match_srt_None [symmetric])

lemma parse_response_header:
  assumes "response_text resp = Inr t" and "cleaned t = pre @ w @ post" and "w \<in> cue_header_lang"
  shows "\<exists>i \<le> length pre. parse_response resp = Inr (drop i (cleaned t)) \<and>
           starts_with_cue_header (drop i (cleaned t)) \<and>
           (\<forall>k < i. \<not> starts_with_cue_header (drop k (cleaned t)))"
proof -
  from js_match_srt_has [OF assms(2,3)] obtain i st where
    i: "i \<le> length pre" "js_match (cleaned t) srt_block_re = Some (i, st)" by blast
  from js_match_srt_Some [OF i(2)] i assms(1) show ?thesis
    by (intro exI [of _ i]) (simp add: parse_response_def substring_def)
qed

lemma parse_response_Inr:
  assumes "parse_response resp = Inr out"
  shows "\<exists>t i. response_text resp = Inr t \<and> i \<le> length (cleaned t) \<and> out = drop i (cleaned t) \<and>
           starts_with_cue_header out \<and> (\<forall>k < i. \<not> starts_with_cue_header (drop k (cleaned t)))"
proof -
  from assms obtain t where t: "response_text resp = Inr t"
    by (cases "response_text resp") (auto simp: parse_response_def)
  with assms obtain i st where m: "js_match (cleaned t) srt_block_re = Some (i, st)"
    and out: "out = drop i (cleaned t)"
    by (auto simp: parse_response_def substring_def Let_def split: option.splits if_splits)
  from js_match_srt_Some [OF m] t out show ?thesis by blast
qed

lemma suffix_of_trimmed:
  assumes "trim c = c" and "starts_with_cue_header (drop i c)"
  shows "trim (drop i c) = drop i c"
proof -
  from assms(2) obtain w r where w: "drop i c = w @ r" "w \<in> cue_header_lang"
    by (auto simp: starts_with_cue_header_def)
  with cue_header_lang_hd [OF w(2)] have ne: "drop i c \<noteq> []" and "is_digit (hd (drop i c))"
    by auto
  then have h: "\<not> is_space (hd (drop i c))" by (simp add: digit_not_space)
  from ne have c: "c \<noteq> []" by auto
  from ne have "last (drop i c) = last c" by simp
  moreover from trim_Nil_or [of c] assms(1) c have "\<not> is_space (last c)" by simp
  ultimately show ?thesis using ne h by (simp add: trim_id)
qed

lemma concI: "u \<in> A \<Longrightarrow> v \<in> B \<Longrightarrow> u @ v \<in> conc A B"
  unfolding conc_def by blast

lemma timestamp_with_lang:
  assumes "timestamp_with sep t" and "is_sep sep"
  shows "t \<in> timestamp_lang"
proof -
  from assms(1) obtain hh mm ss mmm where
    t: "t = hh @ js '':'' @ mm @ js '':'' @ ss @ [sep] @ mmm"
    and d: "hh \<in> exactly 2 is_digit" "mm \<in> exactly 2 is_digit" "ss \<in> exactly 2 is_digit"
       "mmm \<in> exactly 3 is_digit"
    by (auto simp: timestamp_with_def)
  from assms(2) have s: "[sep] \<in> one is_sep" by (simp add: one_def)
  show ?thesis
    unfolding timestamp_lang_def t by (intro concI d s) simp_all
qed

lemma cue_header_explicit:
  assumes "idx \<in> many1 is_digit" and "timestamp_with sep1 t1" and "timestamp_with sep2 t2"
    and "is_sep sep1" and "is_sep sep2"
  shows "idx @ [0x0A] @ t1 @ js '' --> '' @ t2 \<in> cue_header_lang"
proof -
  have a: "[] \<in> many is_space" by (simp add: many_def)
  have b: "[0x0A] \<in> one is_lf" by (simp add: one_def is_lf_def)
  note c = timestamp_with_lang [OF assms(2,4)] timestamp_with_lang [OF assms(3,5)]
  have "idx @ [] @ [0x0A] @ t1 @ js '' --> '' @ t2 \<in> cue_header_lang"
    unfolding cue_header_lang_def by (intro concI assms(1) a b c) simp
  then show ?thesis by simp
qed

section \<open>The markdown block\<close>

lemma concat_concat_map: "concat (concat xss) = concat (map concat xss)"
  by (induction xss) auto

lemma seq_assoc: "seq (seq a b) c = seq a (seq b c)"
  by (simp add: seq_def fun_eq_iff map_concat concat_concat_map comp_def)

lemma accepts_fence_open:
  "accepts (seq (lit (js ''```'')) (seq (opt (lit (js ''srt''))) (seq (star is_space) (cls is_lf))))
     fence_open_lang"
  unfolding fence_open_lang_def
  by (intro accepts_seq accepts_opt accepts_lit accepts_star accepts_cls)

lemma markdown_re_split:
  "markdown_re =
     seq (seq (lit (js ''```'')) (seq (opt (lit (js ''srt''))) (seq (star is_space) (cls is_lf))))
       (seq (group (lazy_plus is_any)) (lit (js ''\<newline>```'')))"
  by (simp add: markdown_re_def seq_assoc)

lemma accepts_lazy_plus: "accepts (lazy_plus p) (many1 p)"
proof -
  have "accepts (lazy_plus p) (conc (one p) (many p))"
    unfolding lazy_plus_def by (rule accepts_seq [OF accepts_cls accepts_lazy_star])
  moreover have "conc (one p) (many p) = many1 p"
  proof (intro set_eqI iffI)
    fix w assume "w \<in> conc (one p) (many p)"
    then show "w \<in> many1 p" by (auto simp: conc_def one_def many_def many1_def)
  next
    fix w assume "w \<in> many1 p"
    then obtain x v where "w = [x] @ v" "p x" "\<forall>y \<in> set v. p y"
      by (cases w) (auto simp: many1_def)
    then show "w \<in> conc (one p) (many p)"
      unfolding conc_def one_def many_def by blast
  qed
  ultimately show ?thesis by simp
qed

lemma group_then_lit:
  assumes "accepts m L"
  shows "(s', g') \<in> set (seq (group m) (lit f) (s, g)) \<longleftrightarrow>
         (\<exists>c \<in> L. s = c @ f @ s' \<and> g' = Some c)"
proof
  assume "(s', g') \<in> set (seq (group m) (lit f) (s, g))"
  then obtain st where st: "st \<in> set (group m (s, g))" and r: "(s', g') \<in> set (lit f st)"
    by (auto simp: seq_def)
  from st obtain r0 g0 where m: "(r0, g0) \<in> set (m (s, g))"
    and st_eq: "st = (r0, Some (take (length s - length r0) s))"
    by (auto simp: group_def)
  from m assms obtain c where c: "c \<in> L" "s = c @ r0" by (auto simp: accepts_def)
  then have "take (length s - length r0) s = c" by simp
  with st_eq have "st = (r0, Some c)" by simp
  with r have "r0 = f @ s'" "g' = Some c"
    by (auto simp: lit_def starts_with_iff split: if_splits)
  with c show "\<exists>c \<in> L. s = c @ f @ s' \<and> g' = Some c" by auto
next
  assume "\<exists>c \<in> L. s = c @ f @ s' \<and> g' = Some c"
  then obtain c where c: "c \<in> L" "s = c @ f @ s'" "g' = Some c" by auto
  with assms have "(f @ s', g) \<in> set (m (s, g))" by (auto simp: accepts_def)
  then have "(f @ s', Some (take (length s - length (f @ s')) s)) \<in> set (group m (s, g))"
    by (force simp: group_def)
  moreover have "take (length s - length (f @ s')) s = c" using c(2) by simp
  ultimately have "(f @ s', Some c) \<in> set (group m (s, g))" by simp
  moreover have "(s', Some c) \<in> set (lit f (f @ s', Some c))"
    by (simp add: lit_def starts_with_iff)
  ultimately show "(s', g') \<in> set (seq (group m) (lit f) (s, g))"
    using c(3) by (auto simp: seq_def)
qed

lemma accepts_then:
  assumes "accepts m L"
  shows "(s', g') \<in> set (seq m x (s, g)) \<longleftrightarrow> (\<exists>u \<in> L. \<exists>r. s = u @ r \<and> (s', g') \<in> set (x (r, g)))"
proof
  assume "(s', g') \<in> set (seq m x (s, g))"
  then obtain st where st: "st \<in> set (m (s, g))" and r: "(s', g') \<in> set (x st)"
    by (auto simp: seq_def)
  obtain r0 g0 where [simp]: "st = (r0, g0)" by (cases st)
  from st assms obtain u where "g0 = g" "u \<in> L" "s = u @ r0" by (auto simp: accepts_def)
  with r show "\<exists>u \<in> L. \<exists>r. s = u @ r \<and> (s', g') \<in> set (x (r, g))" by auto
next
  assume "\<exists>u \<in> L. \<exists>r. s = u @ r \<and> (s', g') \<in> set (x (r, g))"
  then obtain u r where u: "u \<in> L" "s = u @ r" "(s', g') \<in> set (x (r, g))" by auto
  with assms have "(r, g) \<in> set (m (s, g))" by (auto simp: accepts_def)
  with u(3) show "(s', g') \<in> set (seq m x (s, g))" by (auto simp: seq_def)
qed

lemma many1_any: "c \<in> many1 is_any \<longleftrightarrow> c \<noteq> []"
  by (simp add: many1_def is_any_def)

lemma markdown_re_set:
  "(s', g') \<in> set (markdown_re (s, g)) \<longleftrightarrow>
   (\<exists>u c. u \<in> fence_open_lang \<and> c \<noteq> [] \<and> s = u @ c @ js ''\<newline>```'' @ s' \<and> g' = Some c)"
proof -
  have "(s', g') \<in> set (markdown_re (s, g)) \<longleftrightarrow>
        (\<exists>u \<in> fence_open_lang. \<exists>r. s = u @ r \<and>
           (s', g') \<in> set (seq (group (lazy_plus is_any)) (lit (js ''\<newline>```'')) (r, g)))"
    unfolding markdown_re_split by (rule accepts_then [OF accepts_fence_open])
  also have "\<dots> \<longleftrightarrow>
        (\<exists>u \<in> fence_open_lang. \<exists>r. s = u @ r \<and>
           (\<exists>c \<in> many1 is_any. r = c @ js ''\<newline>```'' @ s' \<and> g' = Some c))"
    by (simp only: group_then_lit [OF accepts_lazy_plus])
  also have "\<dots> \<longleftrightarrow>
        (\<exists>u c. u \<in> fence_open_lang \<and> c \<noteq> [] \<and> s = u @ c @ js ''\<newline>```'' @ s' \<and> g' = Some c)"
    unfolding many1_any Bex_def by blast
  finally show ?thesis .
qed

lemma js_fence_close: "js ''\<newline>```'' = [0x0A, 0x60, 0x60, 0x60]"
  by (simp add: js_def)

lemma js_fence_open: "js ''```'' = [0x60, 0x60, 0x60]"
  by (simp add: js_def)

lemma js_srt: "js ''srt'' = [0x73, 0x72, 0x74]"
  by (simp add: js_def)

lemma backtick_not_space: "\<not> is_space 0x60"
  by (simp add: is_space_def)

lemma s_not_space: "\<not> is_space 0x73"
  by (simp add: is_space_def)

lemma fence_open_lang_iff:
  "u \<in> fence_open_lang \<longleftrightarrow>
   (\<exists>tg ws. u = js ''```'' @ tg @ ws @ [0x0A] \<and> (tg = [] \<or> tg = js ''srt'') \<and>
      (\<forall>x \<in> set ws. is_space x))"
  unfolding fence_open_lang_def conc_def one_def many_def is_lf_def by auto

lemma fence_occurrence:
  assumes eq: "interior @ [0x0A, 0x60, 0x60, 0x60] @ post = a @ [0x0A, 0x60, 0x60, 0x60] @ (b :: jsstring)"
    and inner: "\<not> (\<exists>x y. interior = x @ [0x0A, 0x60, 0x60, 0x60] @ y)"
    and post: "0x60 \<notin> set post"
  shows "a = interior"
proof -
  from eq [symmetric] consider
    us where "a = interior @ us" "us @ [0x0A, 0x60, 0x60, 0x60] @ b = [0x0A, 0x60, 0x60, 0x60] @ post"
    | us where "a @ us = interior" "[0x0A, 0x60, 0x60, 0x60] @ b = us @ [0x0A, 0x60, 0x60, 0x60] @ post"
    by (auto simp: append_eq_append_conv2)
  then show ?thesis
  proof cases
    case 1
    show ?thesis
    proof (cases us)
      case Nil
      with 1 show ?thesis by simp
    next
      case (Cons x xs)
      with 1(2) have "xs @ [0x0A, 0x60, 0x60, 0x60] @ b = [0x60, 0x60, 0x60] @ post" by simp
      then have "0x60 \<in> set post"
      proof (cases xs)
        case Nil
        then show ?thesis using \<open>xs @ [0x0A, 0x60, 0x60, 0x60] @ b = [0x60, 0x60, 0x60] @ post\<close> by simp
      next
        case n1: (Cons y ys)
        show ?thesis
        proof (cases ys)
          case Nil
          then show ?thesis using n1 \<open>xs @ [0x0A, 0x60, 0x60, 0x60] @ b = [0x60, 0x60, 0x60] @ post\<close> by simp
        next
          case n2: (Cons z zs)
          show ?thesis
          proof (cases zs)
            case Nil
            then show ?thesis using n1 n2 \<open>xs @ [0x0A, 0x60, 0x60, 0x60] @ b = [0x60, 0x60, 0x60] @ post\<close> by auto
          next
            case n3: (Cons v vs)
            then have "post = vs @ [0x0A, 0x60, 0x60, 0x60] @ b \<or> post = v # vs @ [0x0A, 0x60, 0x60, 0x60] @ b"
              using n1 n2 \<open>xs @ [0x0A, 0x60, 0x60, 0x60] @ b = [0x60, 0x60, 0x60] @ post\<close> by auto
            then show ?thesis by auto
          qed
        qed
      qed
      with post show ?thesis by simp
    qed
  next
    case 2
    show ?thesis
    proof (cases us)
      case Nil
      with 2 show ?thesis by simp
    next
      case n0: (Cons x xs)
      show ?thesis
      proof (cases xs)
        case Nil
        with n0 2(2) show ?thesis by simp
      next
        case n1: (Cons y ys)
        show ?thesis
        proof (cases ys)
          case Nil
          with n0 n1 2(2) show ?thesis by simp
        next
          case n2: (Cons z zs)
          show ?thesis
          proof (cases zs)
            case Nil
            with n0 n1 n2 2(2) show ?thesis by simp
          next
            case n3: (Cons v vs)
            with n0 n1 n2 2(2) have "us = [0x0A, 0x60, 0x60, 0x60] @ vs" by simp
            with 2(1) have "interior = a @ [0x0A, 0x60, 0x60, 0x60] @ vs" by simp
            with inner show ?thesis by blast
          qed
        qed
      qed
    qed
  qed
qed

lemma trim_ws_prefix:
  assumes "\<forall>x \<in> set w. is_space x"
  shows "trim (w @ c) = trim c"
  using assms by (simp add: trim_def dropWhile_append)

lemma dropWhile_frame:
  assumes "\<not> P a"
  shows "dropWhile P (pre @ a # rest) = dropWhile P pre @ a # rest"
  using assms by (induction pre) auto

lemma trim_frame:
  assumes "\<not> is_space a" and "\<not> is_space b"
  shows "trim (pre @ a # mid @ b # post) =
         dropWhile is_space pre @ a # mid @ b # rev (dropWhile is_space (rev post))"
proof -
  have "dropWhile is_space (pre @ a # mid @ b # post) = dropWhile is_space pre @ a # mid @ b # post"
    using assms(1) by (rule dropWhile_frame)
  moreover have "rev (dropWhile is_space pre @ a # mid @ b # post) =
        rev post @ b # (rev mid @ a # rev (dropWhile is_space pre))" by simp
  moreover have "dropWhile is_space (rev post @ b # (rev mid @ a # rev (dropWhile is_space pre))) =
        dropWhile is_space (rev post) @ b # (rev mid @ a # rev (dropWhile is_space pre))"
    using assms(2) by (rule dropWhile_frame)
  ultimately show ?thesis by (simp add: trim_def)
qed

lemma markdown_capture:
  assumes m: "(s', g') \<in> set (markdown_re
      (js ''```'' @ tag @ blank @ [0x0A] @ interior @ js ''\<newline>```'' @ post, None))"
    and tag: "tag = [] \<or> tag = js ''srt''"
    and blank: "\<forall>x \<in> set blank. is_space x \<and> x \<noteq> 0x0A"
    and inner: "\<not> (\<exists>x y. interior = x @ js ''\<newline>```'' @ y)"
    and post: "0x60 \<notin> set post"
  shows "\<exists>c. g' = Some c \<and> c \<noteq> [] \<and> trim c = trim interior"
proof -
  from m obtain u c where u: "u \<in> fence_open_lang" and c: "c \<noteq> []" "g' = Some c"
    and eq: "js ''```'' @ tag @ blank @ [0x0A] @ interior @ js ''\<newline>```'' @ post =
             u @ c @ js ''\<newline>```'' @ s'"
    by (auto simp: markdown_re_set)
  from u obtain tg ws where u_eq: "u = js ''```'' @ tg @ ws @ [0x0A]"
    and tg: "tg = [] \<or> tg = js ''srt''" and ws: "\<forall>x \<in> set ws. is_space x"
    by (auto simp: fence_open_lang_iff)
  from eq u_eq have eq2:
    "tag @ blank @ [0x0A] @ interior @ js ''\<newline>```'' @ post =
     tg @ ws @ [0x0A] @ c @ js ''\<newline>```'' @ s'"
    by simp
  have same: "tg = tag"
  proof (rule ccontr)
    assume ne: "tg \<noteq> tag"
    from tag tg ne consider "tag = []" "tg = js ''srt''" | "tag = js ''srt''" "tg = []" by auto
    then show False
    proof cases
      case 1
      with eq2 blank s_not_space show False by (cases blank) (auto simp: js_srt)
    next
      case 2
      with eq2 ws s_not_space show False by (cases ws) (auto simp: js_srt)
    qed
  qed
  with eq2 have eq2': "blank @ ([0x0A] @ interior @ js ''\<newline>```'' @ post) =
      ws @ ([0x0A] @ c @ js ''\<newline>```'' @ s')"
    by simp
  obtain ws' where ws': "\<forall>x \<in> set ws'. is_space x"
    and eq3: "[0x0A] @ interior @ js ''\<newline>```'' @ post = ws' @ [0x0A] @ c @ js ''\<newline>```'' @ s'"
  proof -
    from eq2' consider
      us where "blank = ws @ us" "us @ [0x0A] @ interior @ js ''\<newline>```'' @ post =
                  [0x0A] @ c @ js ''\<newline>```'' @ s'"
      | us where "blank @ us = ws" "[0x0A] @ interior @ js ''\<newline>```'' @ post =
                  us @ [0x0A] @ c @ js ''\<newline>```'' @ s'"
      by (auto simp: append_eq_append_conv2)
    then show ?thesis
    proof cases
      case 1
      have "us = []"
      proof (cases us)
        case Nil
        then show ?thesis .
      next
        case (Cons x xs)
        with 1(2) have "x = 0x0A" by simp
        with Cons 1(1) blank show ?thesis by auto
      qed
      with 1(2) have "[0x0A] @ interior @ js ''\<newline>```'' @ post =
          [] @ [0x0A] @ c @ js ''\<newline>```'' @ s'" by simp
      then show ?thesis using that [of "[]"] by simp
    next
      case 2
      from 2(1) ws have "\<forall>x \<in> set us. is_space x" by auto
      with 2(2) show ?thesis using that [of us] by blast
    qed
  qed
  obtain w2 where w2: "\<forall>x \<in> set w2. is_space x"
    and eq4: "interior @ js ''\<newline>```'' @ post = (w2 @ c) @ js ''\<newline>```'' @ s'"
  proof (cases ws')
    case Nil
    with eq3 have "interior @ js ''\<newline>```'' @ post = ([] @ c) @ js ''\<newline>```'' @ s'" by simp
    then show ?thesis using that [of "[]"] by simp
  next
    case (Cons x xs)
    with eq3 have "interior @ js ''\<newline>```'' @ post = ((xs @ [0x0A]) @ c) @ js ''\<newline>```'' @ s'"
      by simp
    moreover have "\<forall>y \<in> set (xs @ [0x0A]). is_space y"
      using ws' Cons by (auto simp: is_space_def)
    ultimately show ?thesis using that [of "xs @ [0x0A]"] by blast
  qed
  have "w2 @ c = interior"
    using fence_occurrence [of interior post "w2 @ c" s'] eq4 inner post
    by (simp add: js_fence_close)
  then have "trim interior = trim c"
    using trim_ws_prefix [OF w2, of c] by simp
  with c show ?thesis by simp
qed

lemma markdown_re_no_backtick:
  assumes "x \<noteq> 0x60"
  shows "markdown_re (x # s, None) = []"
proof (rule ccontr)
  assume "markdown_re (x # s, None) \<noteq> []"
  then obtain st where st: "st \<in> set (markdown_re (x # s, None))"
    by (cases "markdown_re (x # s, None)") auto
  obtain a b where ab: "st = (a, b)" by (cases st)
  from st [unfolded ab markdown_re_set] obtain u r where "u \<in> fence_open_lang" "x # s = u @ r"
    by blast
  with assms show False by (auto simp: fence_open_lang_iff js_fence_open)
qed

lemma markdown_re_fence_nonempty:
  assumes "tag = [] \<or> tag = js ''srt''" and "\<forall>x \<in> set blank. is_space x \<and> x \<noteq> 0x0A"
    and "interior \<noteq> []"
  shows "markdown_re
           (js ''```'' @ tag @ blank @ [0x0A] @ interior @ js ''\<newline>```'' @ post, None) \<noteq> []"
proof -
  let ?u = "js ''```'' @ tag @ blank @ [0x0A]"
  have "\<exists>tg ws. ?u = js ''```'' @ tg @ ws @ [0x0A] \<and> (tg = [] \<or> tg = js ''srt'') \<and>
          (\<forall>x \<in> set ws. is_space x)"
    using assms(1,2) by (intro exI [of _ tag] exI [of _ blank]) simp
  then have u: "?u \<in> fence_open_lang" by (simp only: fence_open_lang_iff)
  have "\<exists>u c. u \<in> fence_open_lang \<and> c \<noteq> [] \<and>
          js ''```'' @ tag @ blank @ [0x0A] @ interior @ js ''\<newline>```'' @ post =
            u @ c @ js ''\<newline>```'' @ post \<and>
          Some interior = Some c"
    using u assms(3) by (intro exI [of _ ?u] exI [of _ interior]) simp
  then have "(post, Some interior) \<in>
      set (markdown_re
        (js ''```'' @ tag @ blank @ [0x0A] @ interior @ js ''\<newline>```'' @ post, None))"
    by (simp only: markdown_re_set)
  then show ?thesis by auto
qed

lemma markdown_unwrap_fenced:
  assumes pre: "0x60 \<notin> set pre" and post: "0x60 \<notin> set post"
    and tag: "tag = [] \<or> tag = js ''srt''"
    and blank: "\<forall>x \<in> set blank. is_space x \<and> x \<noteq> 0x0A"
    and ne: "interior \<noteq> []"
    and inner: "\<not> (\<exists>x y. interior = x @ js ''\<newline>```'' @ y)"
  shows "markdown_unwrap
           (pre @ js ''```'' @ tag @ blank @ [0x0A] @ interior @ js ''\<newline>```'' @ post) =
         trim interior"
proof -
  let ?f = "js ''```'' @ tag @ blank @ [0x0A] @ interior @ js ''\<newline>```'' @ post"
  let ?s = "pre @ ?f"
  have k: "length pre \<le> length ?s" by simp
  have d: "drop (length pre) ?s = ?f" by simp
  have here: "markdown_re (drop (length pre) ?s, None) \<noteq> []"
    unfolding d by (rule markdown_re_fence_nonempty [OF tag blank ne])
  have before: "\<forall>k' < length pre. markdown_re (drop k' ?s, None) = []"
  proof (intro allI impI)
    fix k' assume lt: "k' < length pre"
    then have "drop k' ?s = (pre ! k') # (drop (Suc k') pre @ ?f)"
      by (simp add: Cons_nth_drop_Suc)
    moreover from lt pre have "pre ! k' \<noteq> 0x60" by (metis nth_mem)
    ultimately show "markdown_re (drop k' ?s, None) = []"
      by (simp add: markdown_re_no_backtick)
  qed
  from match_from_first [OF k here before, of 0]
  have jm: "js_match ?s markdown_re = Some (length pre, hd (markdown_re (?f, None)))"
    by (simp add: js_match_def)
  obtain s' g' where h: "hd (markdown_re (?f, None)) = (s', g')"
    by (cases "hd (markdown_re (?f, None))")
  from here have "hd (markdown_re (?f, None)) \<in> set (markdown_re (?f, None))"
    unfolding d by (rule hd_in_set)
  with h have "(s', g') \<in> set (markdown_re (?f, None))" by simp
  from markdown_capture [OF this tag blank inner post] obtain c where
    c: "g' = Some c" "c \<noteq> []" "trim c = trim interior" by blast
  from jm h c show ?thesis by (simp add: markdown_unwrap_def)
qed

lemma cleaned_fenced:
  assumes pre: "0x60 \<notin> set pre" and post: "0x60 \<notin> set post"
    and tag: "tag = [] \<or> tag = js ''srt''"
    and blank: "\<forall>x \<in> set blank. is_space x \<and> x \<noteq> 0x0A"
    and ne: "interior \<noteq> []"
    and inner: "\<not> (\<exists>x y. interior = x @ js ''\<newline>```'' @ y)"
  shows "cleaned (pre @ js ''```'' @ tag @ blank @ [0x0A] @ interior @ js ''\<newline>```'' @ post) =
         trim interior"
proof -
  let ?pre = "dropWhile is_space pre"
  let ?post = "rev (dropWhile is_space (rev post))"
  let ?mid = "[0x60, 0x60] @ tag @ blank @ [0x0A] @ interior @ [0x0A, 0x60, 0x60]"
  have t: "pre @ js ''```'' @ tag @ blank @ [0x0A] @ interior @ js ''\<newline>```'' @ post =
           pre @ 0x60 # ?mid @ 0x60 # post"
    by (simp add: js_fence_open js_fence_close)
  have "trim (pre @ 0x60 # ?mid @ 0x60 # post) = ?pre @ 0x60 # ?mid @ 0x60 # ?post"
    by (rule trim_frame [OF backtick_not_space backtick_not_space])
  also have "\<dots> = ?pre @ js ''```'' @ tag @ blank @ [0x0A] @ interior @ js ''\<newline>```'' @ ?post"
    by (simp add: js_fence_open js_fence_close)
  finally have tr:
    "trim (pre @ js ''```'' @ tag @ blank @ [0x0A] @ interior @ js ''\<newline>```'' @ post) =
      ?pre @ js ''```'' @ tag @ blank @ [0x0A] @ interior @ js ''\<newline>```'' @ ?post"
    unfolding t .
  have p1: "0x60 \<notin> set ?pre" using pre set_dropWhileD by fastforce
  have p2: "0x60 \<notin> set ?post" using post set_dropWhileD by fastforce
  show ?thesis
    unfolding cleaned_def tr by (rule markdown_unwrap_fenced [OF p1 p2 tag blank ne inner])
qed

section \<open>Further lemmas\<close>

lemma in_cue_header_langI:
  assumes "([], None) \<in> set (srt_block_re (w, None))"
  shows "w \<in> cue_header_lang"
  using assms accepts_srt_block_re by (auto simp: accepts_def)

lemma split_no_sep: "sep \<notin> set a \<Longrightarrow> split sep a = [a]"
  by (induction a) auto

lemma split_at_sep: "sep \<notin> set a \<Longrightarrow> split sep (a @ sep # b) = a # split sep b"
  by (induction a) auto

lemma dataURL_split:
  assumes "0x2C \<notin> set ty" and "0x2C \<notin> set payload"
  shows "split 0x2C (dataURL ty payload) = [js ''data:'' @ ty @ js '';base64'', payload]"
proof -
  have e: "dataURL ty payload = (js ''data:'' @ ty @ js '';base64'') @ 0x2C # payload"
    by (simp add: dataURL_def js_def)
  have n: "0x2C \<notin> set (js ''data:'' @ ty @ js '';base64'')"
    using assms(1) by (simp add: js_def)
  show ?thesis
    unfolding e by (simp only: split_at_sep [OF n] split_no_sep [OF assms(2)])
qed

lemma starts_with_append: "starts_with a n \<Longrightarrow> starts_with (a @ b) n"
  by (auto simp: starts_with_iff)

lemma includes_str_prefix:
  assumes "starts_with a n"
  shows "includes_str (a @ b) n"
proof (cases "a @ b")
  case Nil
  with assms have "n = []" by (cases n) auto
  with Nil show ?thesis by simp
next
  case (Cons x xs)
  from starts_with_append [OF assms, of b] Cons show ?thesis by simp
qed

lemma lowers_ascii_ascii_lower: "lowers_ascii ascii_lower"
  by (simp add: lowers_ascii_def ascii_lower_def)

lemma is_ascii_js_prefix: "is_ascii api_error_prefix"
  by code_simp

lemma lowered_prefix: "ascii_lower api_error_prefix = js ''gemini api error: ''"
  by code_simp

lemma prefix_starts: "starts_with (js ''gemini api error: '') (js ''gemini api error'')"
  by code_simp

lemma wrapped_includes:
  assumes "lowers_ascii lc"
  shows "includes_str (lc (api_error_prefix @ m)) (js ''gemini api error'')"
proof -
  from assms is_ascii_js_prefix obtain r where
    "lc (api_error_prefix @ m) = ascii_lower api_error_prefix @ r"
    unfolding lowers_ascii_def by blast
  then show ?thesis
    by (simp add: lowered_prefix includes_str_prefix [OF prefix_starts])
qed

lemma errorMessage_of_ascii:
  assumes "lowers_ascii lc" and "is_ascii m"
  shows "errorMessage_of lc (Error m) = errorMessage_of ascii_lower (Error m)"
proof -
  from assms have "lc m = ascii_lower m" by (simp add: lowers_ascii_def)
  then show ?thesis by (simp add: errorMessage_of_def)
qed

lemma includes_str_iff: "includes_str s n \<longleftrightarrow> (\<exists>x y. s = x @ n @ y)"
proof (induction s)
  case Nil
  then show ?case by auto
next
  case (Cons a s)
  show ?case
  proof
    assume "includes_str (a # s) n"
    then consider "starts_with (a # s) n" | "includes_str s n" by auto
    then show "\<exists>x y. a # s = x @ n @ y"
    proof cases
      case 1
      then obtain r where "a # s = [] @ n @ r" by (auto simp: starts_with_iff)
      then show ?thesis by blast
    next
      case 2
      with Cons obtain x y where "s = x @ n @ y" by blast
      then have "a # s = (a # x) @ n @ y" by simp
      then show ?thesis by blast
    qed
  next
    assume "\<exists>x y. a # s = x @ n @ y"
    then obtain x y where xy: "a # s = x @ n @ y" by blast
    show "includes_str (a # s) n"
    proof (cases x)
      case Nil
      with xy have "starts_with (a # s) n" by (simp add: starts_with_iff)
      then show ?thesis by simp
    next
      case (Cons b x')
      with xy have "s = x' @ n @ y" by simp
      with Cons.IH have "includes_str s n" by blast
      then show ?thesis by simp
    qed
  qed
qed

section \<open>Commas and periods\<close>

lemma sep_blindD: "sep_blind m \<Longrightarrow> same_state st st' \<Longrightarrow> list_all2 same_state (m st) (m st')"
  unfolding sep_blind_def by blast

lemma class_sep_blind_space: "class_sep_blind is_space"
  by (auto simp: class_sep_blind_def same_unit_def is_sep_def is_space_def)

lemma class_sep_blind_digit: "class_sep_blind is_digit"
  by (auto simp: class_sep_blind_def same_unit_def is_sep_def is_digit_def)

lemma class_sep_blind_lf: "class_sep_blind is_lf"
  by (auto simp: class_sep_blind_def same_unit_def is_sep_def is_lf_def)

lemma class_sep_blind_sep: "class_sep_blind is_sep"
  by (auto simp: class_sep_blind_def same_unit_def)

lemma class_sep_blind_any: "class_sep_blind is_any"
  by (auto simp: class_sep_blind_def is_any_def)

lemma same_state_iff:
  "same_state (s, g) (s', g') \<longleftrightarrow> same_but_separators s s' \<and> rel_option same_but_separators g g'"
  by (simp add: same_state_def)

lemma same_but_separators_Nil [simp]: "same_but_separators [] []"
  by (simp add: same_but_separators_def)

lemma same_but_separators_Cons:
  "same_but_separators (x # xs) (y # ys) \<longleftrightarrow> same_unit x y \<and> same_but_separators xs ys"
  by (simp add: same_but_separators_def)

lemma same_but_separators_cases:
  assumes "same_but_separators s s'"
  obtains "s = []" "s' = []"
  | x xs y ys where "s = x # xs" "s' = y # ys" "same_unit x y" "same_but_separators xs ys"
  using assms unfolding same_but_separators_def by (cases s; cases s') auto

lemma starts_with_sep_blind:
  assumes "same_but_separators s s'" and "\<forall>x \<in> set w. \<not> is_sep x"
  shows "starts_with s w = starts_with s' w"
  using assms
proof (induction s w arbitrary: s' rule: starts_with.induct)
  case (1 s)
  then show ?case by simp
next
  case (2 y ys)
  then show ?case by (simp add: same_but_separators_def)
next
  case (3 x xs y ys)
  from "3.prems"(1) obtain x' xs' where s': "s' = x' # xs'" and u: "same_unit x x'"
    and r: "same_but_separators xs xs'"
    by (cases s') (auto simp: same_but_separators_def)
  from "3.prems"(2) have ny: "\<not> is_sep y" and rest: "\<forall>x \<in> set ys. \<not> is_sep x" by simp_all
  from u ny have "x = y \<longleftrightarrow> x' = y" by (auto simp: same_unit_def)
  moreover from "3.IH" [OF r rest] have "starts_with xs ys = starts_with xs' ys" .
  ultimately show ?case using s' by simp
qed

lemma sep_blind_lit:
  assumes "\<forall>x \<in> set w. \<not> is_sep x"
  shows "sep_blind (lit w)"
  unfolding sep_blind_def
proof (intro allI impI)
  fix st st' assume st: "same_state st st'"
  obtain s g s' g' where [simp]: "st = (s, g)" "st' = (s', g')" by (cases st; cases st')
  from st have s: "same_but_separators s s'" and g: "rel_option same_but_separators g g'"
    by (simp_all add: same_state_iff)
  from s have "same_but_separators (drop (length w) s) (drop (length w) s')"
    unfolding same_but_separators_def by (rule list_all2_dropI)
  with starts_with_sep_blind [OF s assms] g
  show "list_all2 same_state (lit w st) (lit w st')"
    by (simp add: lit_def same_state_iff)
qed

lemma sep_blind_cls:
  assumes "class_sep_blind p"
  shows "sep_blind (cls p)"
  unfolding sep_blind_def
proof (intro allI impI)
  fix st st' assume st: "same_state st st'"
  obtain s g s' g' where [simp]: "st = (s, g)" "st' = (s', g')" by (cases st; cases st')
  from st have s: "same_but_separators s s'" and g: "rel_option same_but_separators g g'"
    by (simp_all add: same_state_iff)
  from s show "list_all2 same_state (cls p st) (cls p st')"
  proof (cases rule: same_but_separators_cases)
    case 1
    then show ?thesis by (simp add: cls_def)
  next
    case (2 x xs y ys)
    with assms have "p x = p y" by (simp add: class_sep_blind_def)
    with 2 g show ?thesis by (simp add: cls_def same_state_iff)
  qed
qed

lemma list_all2_concat_map:
  assumes "list_all2 A xs ys" and "\<And>x y. A x y \<Longrightarrow> list_all2 B (f x) (f y)"
  shows "list_all2 B (concat (map f xs)) (concat (map f ys))"
  using assms(1)
proof (induction rule: list_all2_induct)
  case Nil
  then show ?case by simp
next
  case (Cons x xs y ys)
  with assms(2) show ?case by (simp add: list_all2_appendI)
qed

lemma sep_blind_seq:
  assumes "sep_blind m1" and "sep_blind m2"
  shows "sep_blind (seq m1 m2)"
  unfolding sep_blind_def seq_def
proof (intro allI impI)
  fix st st' assume "same_state st st'"
  with assms(1) have "list_all2 same_state (m1 st) (m1 st')" by (rule sep_blindD)
  then show "list_all2 same_state (concat (map m2 (m1 st))) (concat (map m2 (m1 st')))"
    by (rule list_all2_concat_map) (rule sep_blindD [OF assms(2)])
qed

lemma sep_blind_opt:
  assumes "sep_blind m"
  shows "sep_blind (opt m)"
  unfolding sep_blind_def opt_def
proof (intro allI impI)
  fix st st' assume st: "same_state st st'"
  from sep_blindD [OF assms st] st
  show "list_all2 same_state (m st @ [st]) (m st' @ [st'])"
    by (intro list_all2_appendI) simp_all
qed

lemma star_run_sep_blind:
  assumes "class_sep_blind p" and "same_but_separators s s'"
  shows "list_all2 same_but_separators (star_run p s) (star_run p s')"
  using assms(2) unfolding same_but_separators_def
proof (induction rule: list_all2_induct)
  case Nil
  then show ?case by simp
next
  case (Cons x xs y ys)
  from assms(1) Cons(1) have "p x = p y" by (simp add: class_sep_blind_def)
  with Cons show ?case by (auto intro!: list_all2_appendI)
qed

lemma lazy_run_sep_blind:
  assumes "class_sep_blind p" and "same_but_separators s s'"
  shows "list_all2 same_but_separators (lazy_run p s) (lazy_run p s')"
  using assms(2) unfolding same_but_separators_def
proof (induction rule: list_all2_induct)
  case Nil
  then show ?case by simp
next
  case (Cons x xs y ys)
  from assms(1) Cons(1) have "p x = p y" by (simp add: class_sep_blind_def)
  with Cons show ?case by auto
qed

lemma sep_blind_star:
  assumes "class_sep_blind p"
  shows "sep_blind (star p)"
  unfolding sep_blind_def
proof (intro allI impI)
  fix st st' assume st: "same_state st st'"
  obtain s g s' g' where [simp]: "st = (s, g)" "st' = (s', g')" by (cases st; cases st')
  from st have s: "same_but_separators s s'" and g: "rel_option same_but_separators g g'"
    by (simp_all add: same_state_iff)
  from star_run_sep_blind [OF assms s] g
  show "list_all2 same_state (star p st) (star p st')"
    by (simp add: star_def list_all2_map1 list_all2_map2 same_state_iff list_all2_mono)
qed

lemma sep_blind_lazy_star:
  assumes "class_sep_blind p"
  shows "sep_blind (lazy_star p)"
  unfolding sep_blind_def
proof (intro allI impI)
  fix st st' assume st: "same_state st st'"
  obtain s g s' g' where [simp]: "st = (s, g)" "st' = (s', g')" by (cases st; cases st')
  from st have s: "same_but_separators s s'" and g: "rel_option same_but_separators g g'"
    by (simp_all add: same_state_iff)
  from lazy_run_sep_blind [OF assms s] g
  show "list_all2 same_state (lazy_star p st) (lazy_star p st')"
    by (simp add: lazy_star_def list_all2_map1 list_all2_map2 same_state_iff list_all2_mono)
qed

lemma sep_blind_plus: "class_sep_blind p \<Longrightarrow> sep_blind (plus p)"
  by (simp add: plus_def sep_blind_seq sep_blind_cls sep_blind_star)

lemma sep_blind_lazy_plus: "class_sep_blind p \<Longrightarrow> sep_blind (lazy_plus p)"
  by (simp add: lazy_plus_def sep_blind_seq sep_blind_cls sep_blind_lazy_star)

lemma sep_blind_rep: "class_sep_blind p \<Longrightarrow> sep_blind (rep n p)"
proof (induction n)
  case 0
  show ?case unfolding sep_blind_def by simp
next
  case (Suc n)
  then show ?case by (simp add: sep_blind_seq sep_blind_cls)
qed

lemma same_but_separators_length: "same_but_separators s s' \<Longrightarrow> length s = length s'"
  unfolding same_but_separators_def by (rule list_all2_lengthD)

lemma sep_blind_group:
  assumes "sep_blind m"
  shows "sep_blind (group m)"
  unfolding sep_blind_def
proof (intro allI impI)
  fix st st' assume st: "same_state st st'"
  obtain s g s' g' where [simp]: "st = (s, g)" "st' = (s', g')" by (cases st; cases st')
  from st have s: "same_but_separators s s'" by (simp add: same_state_iff)
  have step: "same_state (fst a, Some (take (length s - length (fst a)) s))
                (fst b, Some (take (length s' - length (fst b)) s'))"
    if "same_state a b" for a b
  proof -
    from that have r: "same_but_separators (fst a) (fst b)"
      by (cases a; cases b) (simp add: same_state_iff)
    from same_but_separators_length [OF r] same_but_separators_length [OF s]
    have "length s - length (fst a) = length s' - length (fst b)" by simp
    moreover from s have "same_but_separators (take (length s - length (fst a)) s)
        (take (length s - length (fst a)) s')"
      unfolding same_but_separators_def by (rule list_all2_takeI)
    ultimately show ?thesis using r by (simp add: same_state_iff)
  qed
  have "list_all2 same_state (m (s, g)) (m (s', g'))"
    using sep_blindD [OF assms st] by simp
  then have "list_all2 (\<lambda>a b. same_state (fst a, Some (take (length s - length (fst a)) s))
                (fst b, Some (take (length s' - length (fst b)) s'))) (m (s, g)) (m (s', g'))"
    by (rule list_all2_mono) (rule step)
  then show "list_all2 same_state (group m st) (group m st')"
    by (simp add: group_def list_all2_map1 list_all2_map2 case_prod_unfold)
qed

lemma sep_blind_timestamp_re: "sep_blind timestamp_re"
  unfolding timestamp_re_def
  by (intro sep_blind_seq sep_blind_rep sep_blind_lit sep_blind_cls class_sep_blind_digit
      class_sep_blind_sep) (simp_all add: js_def is_sep_def)

lemma sep_blind_srt_block_re: "sep_blind srt_block_re"
  unfolding srt_block_re_def
  by (intro sep_blind_seq sep_blind_plus sep_blind_star sep_blind_lit sep_blind_cls
      sep_blind_timestamp_re class_sep_blind_digit class_sep_blind_space class_sep_blind_lf)
     (simp_all add: js_def is_sep_def)

lemma sep_blind_markdown_re: "sep_blind markdown_re"
  unfolding markdown_re_def
  by (intro sep_blind_seq sep_blind_opt sep_blind_star sep_blind_lit sep_blind_cls
      sep_blind_group sep_blind_lazy_plus class_sep_blind_space class_sep_blind_lf
      class_sep_blind_any)
     (simp_all add: js_def is_sep_def)

lemma match_from_sep_blind:
  assumes "sep_blind m" and "same_but_separators s s'"
  shows "rel_option (rel_prod (=) same_state) (match_from m s i) (match_from m s' i)"
  using assms(2) unfolding same_but_separators_def
proof (induction arbitrary: i rule: list_all2_induct)
  case Nil
  have "same_state ([], None) ([], None)" by (simp add: same_state_iff)
  from sep_blindD [OF assms(1) this] show ?case
    by (cases "m ([], None)"; cases "m ([], None)") (auto simp: list_all2_Cons1)
next
  case (Cons x xs y ys)
  then have "same_state (x # xs, None) (y # ys, None)"
    by (simp add: same_state_iff same_but_separators_def)
  from sep_blindD [OF assms(1) this] Cons.IH [of "Suc i"] show ?case
    by (cases "m (x # xs, None)"; cases "m (y # ys, None)") auto
qed

lemma dropWhile_sep_blind:
  assumes "same_but_separators s s'"
  shows "same_but_separators (dropWhile is_space s) (dropWhile is_space s')"
  using assms unfolding same_but_separators_def
proof (induction rule: list_all2_induct)
  case Nil
  then show ?case by simp
next
  case (Cons x xs y ys)
  from class_sep_blind_space Cons(1) have "is_space x = is_space y"
    by (simp add: class_sep_blind_def)
  with Cons show ?case by simp
qed

lemma trim_sep_blind:
  assumes "same_but_separators s s'"
  shows "same_but_separators (trim s) (trim s')"
proof -
  have r: "same_but_separators (rev a) (rev b)" if "same_but_separators a b" for a b
    using that by (simp add: same_but_separators_def list_all2_rev)
  show ?thesis
    unfolding trim_def
    by (intro r dropWhile_sep_blind assms)
qed

lemma markdown_unwrap_sep_blind:
  assumes "same_but_separators s s'"
  shows "same_but_separators (markdown_unwrap s) (markdown_unwrap s')"
proof -
  from match_from_sep_blind [OF sep_blind_markdown_re assms, of 0]
  have m: "rel_option (rel_prod (=) same_state) (js_match s markdown_re) (js_match s' markdown_re)"
    by (simp add: js_match_def)
  show ?thesis
  proof (cases "js_match s markdown_re")
    case None
    with m have "js_match s' markdown_re = None" by (cases "js_match s' markdown_re") auto
    with None assms show ?thesis by (simp add: markdown_unwrap_def)
  next
    case (Some a)
    with m obtain b where b: "js_match s' markdown_re = Some b" and ab: "rel_prod (=) same_state a b"
      by (cases "js_match s' markdown_re") auto
    obtain i r g where a: "a = (i, r, g)" by (cases a)
    obtain i' r' g' where b': "b = (i', r', g')" by (cases b)
    from ab a b' have g: "rel_option same_but_separators g g'"
      by (simp add: same_state_iff)
    show ?thesis
    proof (cases g)
      case None
      with g have "g' = None" by (cases g') auto
      with None Some b a b' assms show ?thesis by (simp add: markdown_unwrap_def)
    next
      case (Some c)
      with g obtain c' where c': "g' = Some c'" and cc: "same_but_separators c c'"
        by (cases g') auto
      from cc have "c = [] \<longleftrightarrow> c' = []"
        by (auto simp: same_but_separators_def)
      with Some c' \<open>js_match s markdown_re = Some a\<close> b a b' assms trim_sep_blind [OF cc]
      show ?thesis by (simp add: markdown_unwrap_def)
    qed
  qed
qed

lemma cleaned_sep_blind:
  "same_but_separators t t' \<Longrightarrow> same_but_separators (cleaned t) (cleaned t')"
  unfolding cleaned_def by (intro markdown_unwrap_sep_blind trim_sep_blind)

lemma parse_response_sep_blind:
  assumes "same_but_separators t t'"
  shows "rel_sum (=) same_but_separators
           (parse_response \<lparr>response_text = Inr t, finishReason = fr\<rparr>)
           (parse_response \<lparr>response_text = Inr t', finishReason = fr\<rparr>)"
proof -
  note c = cleaned_sep_blind [OF assms]
  from match_from_sep_blind [OF sep_blind_srt_block_re c, of 0]
  have m: "rel_option (rel_prod (=) same_state)
      (js_match (cleaned t) srt_block_re) (js_match (cleaned t') srt_block_re)"
    by (simp add: js_match_def)
  show ?thesis
  proof (cases "js_match (cleaned t) srt_block_re")
    case None
    with m have "js_match (cleaned t') srt_block_re = None"
      by (cases "js_match (cleaned t') srt_block_re") auto
    with None show ?thesis by (simp add: parse_response_def)
  next
    case (Some a)
    with m obtain b where b: "js_match (cleaned t') srt_block_re = Some b"
      and ab: "rel_prod (=) same_state a b"
      by (cases "js_match (cleaned t') srt_block_re") auto
    obtain i st where a: "a = (i, st)" by (cases a)
    with ab obtain st' where b': "b = (i, st')" by (cases b) auto
    from c have "same_but_separators (drop i (cleaned t)) (drop i (cleaned t'))"
      unfolding same_but_separators_def by (rule list_all2_dropI)
    with Some b a b' show ?thesis by (simp add: parse_response_def substring_def)
  qed
qed

lemma generate_sep_blind:
  assumes "same_but_separators t t'"
  shows "rel_sum (=) same_but_separators
           (generateSrtFromAudio (answering \<lparr>response_text = Inr t, finishReason = fr\<rparr>)
              base64Audio mimeType lang)
           (generateSrtFromAudio (answering \<lparr>response_text = Inr t', finishReason = fr\<rparr>)
              base64Audio mimeType lang)"
  using parse_response_sep_blind [OF assms, of fr]
  by (auto simp: generate_answering elim!: rel_sum.cases)

section \<open>Texts without a backtick\<close>

lemma markdown_re_Nil: "markdown_re ([], None) = []"
proof (rule ccontr)
  assume "markdown_re ([], None) \<noteq> []"
  then obtain st where st: "st \<in> set (markdown_re ([], None))"
    by (cases "markdown_re ([], None)") auto
  obtain a b where ab: "st = (a, b)" by (cases st)
  from st [unfolded ab markdown_re_set] show False by simp
qed

lemma markdown_unwrap_no_backtick:
  assumes "0x60 \<notin> set s"
  shows "markdown_unwrap s = s"
proof -
  have "\<forall>k \<le> length s. markdown_re (drop k s, None) = []"
  proof (intro allI impI)
    fix k assume "k \<le> length s"
    show "markdown_re (drop k s, None) = []"
    proof (cases "drop k s")
      case Nil
      then show ?thesis by (simp add: markdown_re_Nil)
    next
      case (Cons x xs)
      then have "x \<in> set s" by (metis in_set_dropD list.set_intros(1))
      with assms have "x \<noteq> 0x60" by blast
      with Cons show ?thesis by (simp add: markdown_re_no_backtick)
    qed
  qed
  then have "js_match s markdown_re = None"
    by (simp add: js_match_def match_from_None)
  then show ?thesis by (simp add: markdown_unwrap_def)
qed

lemma trim_subset: "set (trim s) \<subseteq> set s"
proof
  fix x assume "x \<in> set (trim s)"
  then have "x \<in> set (dropWhile is_space (rev (dropWhile is_space s)))"
    by (simp add: trim_def)
  then have "x \<in> set (rev (dropWhile is_space s))" by (rule set_dropWhileD)
  then have "x \<in> set (dropWhile is_space s)" by simp
  then show "x \<in> set s" by (rule set_dropWhileD)
qed

lemma cleaned_no_backtick:
  assumes "0x60 \<notin> set t"
  shows "cleaned t = trim t"
  unfolding cleaned_def using assms trim_subset [of t]
  by (intro markdown_unwrap_no_backtick) blast

lemma exactly_3_last:
  assumes "w \<in> exactly 3 is_digit"
  shows "w \<noteq> [] \<and> is_digit (last w)"
proof -
  from assms have l: "length w = 3" and d: "\<forall>x \<in> set w. is_digit x"
    by (simp_all add: exactly_def)
  from l have "w \<noteq> []" by auto
  with d show ?thesis by (simp add: last_in_set)
qed

lemma timestamp_lang_last: "w \<in> timestamp_lang \<Longrightarrow> w \<noteq> [] \<and> is_digit (last w)"
  unfolding timestamp_lang_def conc_def using exactly_3_last by fastforce

lemma cue_header_lang_last: "w \<in> cue_header_lang \<Longrightarrow> is_digit (last w)"
  unfolding cue_header_lang_def conc_def using timestamp_lang_last by fastforce

lemma cue_header_lang_length: "w \<in> cue_header_lang \<Longrightarrow> 2 \<le> length w"
  unfolding cue_header_lang_def conc_def many1_def one_def
  by (auto simp: Suc_le_eq)

lemma trim_keeps_header:
  assumes "w \<in> cue_header_lang"
  shows "trim (pre @ w @ post) =
         dropWhile is_space pre @ w @ rev (dropWhile is_space (rev post))"
proof -
  from cue_header_lang_hd [OF assms] obtain a r where ar: "w = a # r" and a: "is_digit a"
    by (cases w) auto
  from cue_header_lang_length [OF assms] ar have "r \<noteq> []" by auto
  then obtain mid b where r: "r = mid @ [b]" by (metis rev_exhaust)
  from cue_header_lang_last [OF assms] ar r have b: "is_digit b" by simp
  have "trim (pre @ a # mid @ b # post) =
        dropWhile is_space pre @ a # mid @ b # rev (dropWhile is_space (rev post))"
    by (rule trim_frame [OF digit_not_space [OF a] digit_not_space [OF b]])
  then show ?thesis by (simp add: ar r)
qed

section \<open>The claims\<close>

subsection \<open>C1\<close>

text \<open>
  C1, as stated: a response whose finish reason is \<open>SAFETY\<close> makes
  \<open>generateSrtFromAudio\<close> fail with the safety error without any extraction. The
  code looks at the finish reason only after the search for a cue header has found
  nothing: a response flagged \<open>SAFETY\<close> whose text has a cue header is returned as
  subtitles.
\<close>

theorem claim_C1_counterexample:
  "generateSrtFromAudio
     (answering \<lparr>response_text = Inr (js ''1\<newline>00:00:01,000 --> 00:00:02,000\<newline>Hello''),
                 finishReason = Some (js ''SAFETY'')\<rparr>)
     (js ''QUJD'') (js ''audio/mpeg'') Original
   = Inr (js ''1\<newline>00:00:01,000 --> 00:00:02,000\<newline>Hello'')"
  by code_simp

text \<open>
  C1, amended: for a response whose finish reason is \<open>SAFETY\<close> and whose text
  accessor returns, \<open>generateSrtFromAudio\<close> fails with the safety error, wrapped by the
  handler, when the cleaned text has no cue header; when it has one, extraction
  wins and the subtitles are returned.
\<close>

theorem claim_C1_amended:
  assumes "finishReason resp = Some (js ''SAFETY'')" and "response_text resp = Inr t"
  shows "if has_cue_header (cleaned t)
         then \<exists>out. generateSrtFromAudio (answering resp) base64Audio mimeType lang = Inr out \<and>
                starts_with_cue_header out
         else generateSrtFromAudio (answering resp) base64Audio mimeType lang =
                Inl (Error (api_error_prefix @ safety_message))"
proof (cases "has_cue_header (cleaned t)")
  case False
  from parse_response_no_header [OF assms(2) this] assms(1) False
  show ?thesis
    by (simp add: generate_answering rethrow_def)
next
  case True
  then obtain pre w post where "cleaned t = pre @ w @ post" "w \<in> cue_header_lang"
    by (auto simp: has_cue_header_def)
  from parse_response_header [OF assms(2) this] True
  show ?thesis
    by (auto simp: generate_answering)
qed

theorem claim_C1_amended_witness:
  "finishReason \<lparr>response_text = Inr (js ''I cannot process this audio.''),
                 finishReason = Some (js ''SAFETY'')\<rparr> = Some (js ''SAFETY'') \<and>
   \<not> has_cue_header (cleaned (js ''I cannot process this audio.'')) \<and>
   generateSrtFromAudio
     (answering \<lparr>response_text = Inr (js ''I cannot process this audio.''),
                 finishReason = Some (js ''SAFETY'')\<rparr>)
     (js ''QUJD'') (js ''audio/mpeg'') Original
   = Inl (Error (api_error_prefix @ safety_message))"
proof -
  let ?t = "js ''I cannot process this audio.''"
  let ?r = "\<lparr>response_text = Inr ?t, finishReason = Some (js ''SAFETY'')\<rparr>"
  have "js_match (cleaned ?t) srt_block_re = None" by code_simp
  then have n: "\<not> has_cue_header (cleaned ?t)" using js_match_srt_None by blast
  have f: "finishReason ?r = Some (js ''SAFETY'')" by simp
  have x: "response_text ?r = Inr ?t" by simp
  from claim_C1_amended [OF f x, of "js ''QUJD''" "js ''audio/mpeg''" Original] n f
  show ?thesis by simp
qed

subsection \<open>C2\<close>



subsection \<open>C3\<close>

text \<open>
  C3: when \<open>generateSrtFromAudio\<close> returns subtitles, the service returned a response
  whose text accessor returned a text, and the subtitles are the cleaned text
  (trimmed, markdown block unwrapped) from the first index at which a cue header
  starts to its end; trimming that substring changes nothing. The subtitles begin
  with a cue header, and everything after the header up to the end of
  the cleaned text is in them.
\<close>

theorem claim_C3:
  assumes "generateSrtFromAudio generateContent base64Audio mimeType lang = Inr out"
  shows "\<exists>resp t i.
           generateContent (Request (js ''gemini-2.5-flash'') (textPart_of lang) base64Audio mimeType) = Inr resp \<and>
           response_text resp = Inr t \<and> i \<le> length (cleaned t) \<and>
           (\<forall>k < i. \<not> starts_with_cue_header (substring (cleaned t) k)) \<and>
           out = trim (substring (cleaned t) i) \<and>
           out = substring (cleaned t) i \<and>
           starts_with_cue_header out \<and>
           cleaned t = take i (cleaned t) @ out"
proof -
  from assms obtain resp where
    r: "generateContent (Request (js ''gemini-2.5-flash'') (textPart_of lang) base64Audio mimeType) = Inr resp"
    and p: "parse_response resp = Inr out"
    by (auto simp: generateSrtFromAudio_def try_block_def split: sum.splits)
  from parse_response_Inr [OF p] obtain t i where
    ti: "response_text resp = Inr t" "i \<le> length (cleaned t)" "out = drop i (cleaned t)"
      "starts_with_cue_header out" "\<forall>k < i. \<not> starts_with_cue_header (drop k (cleaned t))"
    by blast
  from suffix_of_trimmed [OF cleaned_is_trimmed, of i t] ti(3,4)
  have tr: "out = trim (substring (cleaned t) i)" by (simp add: substring_def)
  have su: "out = substring (cleaned t) i" by (simp add: ti(3) substring_def)
  have ap: "cleaned t = take i (cleaned t) @ out" by (simp add: ti(3))
  have le: "\<forall>k < i. \<not> starts_with_cue_header (substring (cleaned t) k)"
    using ti(5) by (simp add: substring_def)
  from r ti(1,2,4) le tr su ap show ?thesis by blast
qed

theorem claim_C3_witness:
  "generateSrtFromAudio
     (answering \<lparr>response_text = Inr (js ''Here are the subtitles:\<newline>1\<newline>00:00:00,500 --> 00:00:01,500\<newline>Hi there\<newline>garbage at the end  ''),
                 finishReason = None\<rparr>)
     (js ''QUJD'') (js ''audio/mpeg'') Original
   = Inr (js ''1\<newline>00:00:00,500 --> 00:00:01,500\<newline>Hi there\<newline>garbage at the end'') \<and>
   (\<exists>t i. i \<le> length (cleaned t) \<and>
      js ''1\<newline>00:00:00,500 --> 00:00:01,500\<newline>Hi there\<newline>garbage at the end'' = trim (substring (cleaned t) i) \<and>
      starts_with_cue_header (js ''1\<newline>00:00:00,500 --> 00:00:01,500\<newline>Hi there\<newline>garbage at the end''))"
proof -
  have h: "generateSrtFromAudio
     (answering \<lparr>response_text = Inr (js ''Here are the subtitles:\<newline>1\<newline>00:00:00,500 --> 00:00:01,500\<newline>Hi there\<newline>garbage at the end  ''),
                 finishReason = None\<rparr>)
     (js ''QUJD'') (js ''audio/mpeg'') Original
   = Inr (js ''1\<newline>00:00:00,500 --> 00:00:01,500\<newline>Hi there\<newline>garbage at the end'')"
    by code_simp
  from claim_C3 [OF h] h show ?thesis by blast
qed

subsection \<open>C4\<close>

text \<open>
  C4, as stated: for every text wrapped in a fenced block, the unwrapping step
  gives the inside of the block, trimmed. The first pattern asks for at least one
  character between the line break after the opening fence and the line break
  before the closing fence, and its group ends at the first line break that three
  backticks follow. So a block with nothing inside is not matched, and the step
  leaves the text as it is, fences included; and of an inside that itself has a
  line break followed by three backticks, only the part before that line break is
  taken. Backticks before or after the block can have the pattern match
  elsewhere: the last two texts have a block with \<open>y\<close> inside after an
  earlier block, and a block with a blank inside before a later fence.
\<close>

theorem claim_C4_counterexample:
  "js ''```srt\<newline>\<newline>```'' = js ''```'' @ js ''srt'' @ [0x0A] @ [] @ js ''\<newline>```'' \<and>
   cleaned (js ''```srt\<newline>\<newline>```'') = js ''```srt\<newline>\<newline>```'' \<and>
   trim [] = [] \<and>
   js ''```\<newline>a\<newline>```\<newline>b\<newline>```'' =
     js ''```'' @ [] @ [0x0A] @ js ''a\<newline>```\<newline>b'' @ js ''\<newline>```'' \<and>
   cleaned (js ''```\<newline>a\<newline>```\<newline>b\<newline>```'') = js ''a'' \<and>
   trim (js ''a\<newline>```\<newline>b'') = js ''a\<newline>```\<newline>b'' \<and>
   cleaned (js ''```\<newline>x\<newline>```\<newline>'' @ js ''```'' @ [] @ [0x0A] @ js ''y'' @ js ''\<newline>```'') = js ''x'' \<and>
   cleaned (js ''```'' @ [] @ [0x0A] @ js '' '' @ js ''\<newline>```'' @ js ''\<newline>x\<newline>```'') =
     js ''```\<newline>x''"
  by code_simp

text \<open>
  C4, amended: take a fenced block: three backticks, the tag \<open>srt\<close> or no tag, any
  whitespace but a line break, a line break, an inside that is not empty and has
  no line break followed by three backticks, a line break and three backticks. For
  every text that has such a block and no backtick before or after it (so any
  whitespace may stand there, or a preamble in words), the unwrapping step gives
  the inside of the block, trimmed. The input of scenario A gives the output of
  scenario A.
\<close>

theorem claim_C4_amended:
  "(0x60 \<notin> set pre \<and> 0x60 \<notin> set post \<and> (tag = [] \<or> tag = js ''srt'') \<and>
    (\<forall>x \<in> set blank. is_space x \<and> x \<noteq> 0x0A) \<and> interior \<noteq> [] \<and>
    \<not> (\<exists>x y. interior = x @ js ''\<newline>```'' @ y) \<longrightarrow>
      cleaned (pre @ js ''```'' @ tag @ blank @ [0x0A] @ interior @ js ''\<newline>```'' @ post) =
        trim interior) \<and>
   cleaned (js ''Sure! ```srt\<newline>1\<newline>00:00:01,000 --> 00:00:02,000\<newline>Hello\<newline>```'') =
     js ''1\<newline>00:00:01,000 --> 00:00:02,000\<newline>Hello''"
proof -
  have g: "0x60 \<notin> set pre \<and> 0x60 \<notin> set post \<and> (tag = [] \<or> tag = js ''srt'') \<and>
    (\<forall>x \<in> set blank. is_space x \<and> x \<noteq> 0x0A) \<and> interior \<noteq> [] \<and>
    \<not> (\<exists>x y. interior = x @ js ''\<newline>```'' @ y) \<longrightarrow>
      cleaned (pre @ js ''```'' @ tag @ blank @ [0x0A] @ interior @ js ''\<newline>```'' @ post) =
        trim interior"
  proof
    assume a: "0x60 \<notin> set pre \<and> 0x60 \<notin> set post \<and> (tag = [] \<or> tag = js ''srt'') \<and>
      (\<forall>x \<in> set blank. is_space x \<and> x \<noteq> 0x0A) \<and> interior \<noteq> [] \<and>
      \<not> (\<exists>x y. interior = x @ js ''\<newline>```'' @ y)"
    then have 1: "0x60 \<notin> set pre" and 2: "0x60 \<notin> set post" and 3: "tag = [] \<or> tag = js ''srt''"
      and 4: "\<forall>x \<in> set blank. is_space x \<and> x \<noteq> 0x0A"
      and 5: "interior \<noteq> []" and 6: "\<not> (\<exists>x y. interior = x @ js ''\<newline>```'' @ y)"
      by blast+
    show "cleaned (pre @ js ''```'' @ tag @ blank @ [0x0A] @ interior @ js ''\<newline>```'' @ post) =
        trim interior"
      by (rule cleaned_fenced [OF 1 2 3 4 5 6])
  qed
  have e: "cleaned (js ''Sure! ```srt\<newline>1\<newline>00:00:01,000 --> 00:00:02,000\<newline>Hello\<newline>```'') =
     js ''1\<newline>00:00:01,000 --> 00:00:02,000\<newline>Hello''"
    by code_simp
  from g e show ?thesis by (rule conjI)
qed

theorem claim_C4_amended_witness:
  "0x60 \<notin> set (js '' \<newline>'') \<and> 0x60 \<notin> set (js ''\<newline>  '') \<and>
   is_space 0x20 \<and> is_space 0x0D \<and>
   js '' 1\<newline>00:00:01,000 --> 00:00:02,000\<newline>Hello '' \<noteq> [] \<and>
   \<not> includes_str (js '' 1\<newline>00:00:01,000 --> 00:00:02,000\<newline>Hello '') (js ''\<newline>```'') \<and>
   cleaned (js '' \<newline>'' @ js ''```'' @ js ''srt'' @ [0x20, 0x0D] @ [0x0A] @
      js '' 1\<newline>00:00:01,000 --> 00:00:02,000\<newline>Hello '' @ js ''\<newline>```'' @ js ''\<newline>  '') =
     trim (js '' 1\<newline>00:00:01,000 --> 00:00:02,000\<newline>Hello '') \<and>
   trim (js '' 1\<newline>00:00:01,000 --> 00:00:02,000\<newline>Hello '') =
     js ''1\<newline>00:00:01,000 --> 00:00:02,000\<newline>Hello''"
proof -
  let ?i = "js '' 1\<newline>00:00:01,000 --> 00:00:02,000\<newline>Hello ''"
  have 1: "0x60 \<notin> set (js '' \<newline>'')" by (simp add: js_def)
  have 2: "0x60 \<notin> set (js ''\<newline>  '')" by (simp add: js_def)
  have 3: "js ''srt'' = [] \<or> js ''srt'' = js ''srt''" by simp
  have s: "is_space 0x20" "is_space 0x0D" by (simp_all add: is_space_def)
  then have 4: "\<forall>x \<in> set [0x20, 0x0D]. is_space x \<and> x \<noteq> 0x0A" by simp
  have 5: "?i \<noteq> []" by (simp add: js_def)
  have n: "\<not> includes_str ?i (js ''\<newline>```'')" by code_simp
  then have 6: "\<not> (\<exists>x y. ?i = x @ js ''\<newline>```'' @ y)" using includes_str_iff by blast
  have t: "trim ?i = js ''1\<newline>00:00:01,000 --> 00:00:02,000\<newline>Hello''" by code_simp
  from claim_C4_amended [THEN conjunct1, of "js '' \<newline>''" "js ''\<newline>  ''" "js ''srt''"
      "[0x20, 0x0D]" ?i] 1 2 3 4 5 6
  have "cleaned (js '' \<newline>'' @ js ''```'' @ js ''srt'' @ [0x20, 0x0D] @ [0x0A] @ ?i @
      js ''\<newline>```'' @ js ''\<newline>  '') = trim ?i" by blast
  with 1 2 s 5 n t show ?thesis by blast
qed

subsection \<open>C5\<close>

text \<open>
  C5, as stated: whenever the response text has a cue header after some preamble,
  the output starts at that header. The search runs on the cleaned text: when the
  preamble holds a markdown block, the text is replaced by the content of the
  block, and a cue header after the block is lost.
\<close>

theorem claim_C5_counterexample:
  "js ''```\<newline>note\<newline>```\<newline>1\<newline>00:00:00,500 --> 00:00:01,500\<newline>Hi there'' =
     js ''```\<newline>note\<newline>```\<newline>'' @ js ''1\<newline>00:00:00,500 --> 00:00:01,500'' @ js ''\<newline>Hi there'' \<and>
   js ''1\<newline>00:00:00,500 --> 00:00:01,500'' \<in> cue_header_lang \<and>
   cleaned (js ''```\<newline>note\<newline>```\<newline>1\<newline>00:00:00,500 --> 00:00:01,500\<newline>Hi there'') = js ''note'' \<and>
   generateSrtFromAudio
     (answering \<lparr>response_text = Inr (js ''```\<newline>note\<newline>```\<newline>1\<newline>00:00:00,500 --> 00:00:01,500\<newline>Hi there''),
                 finishReason = None\<rparr>)
     (js ''QUJD'') (js ''audio/mpeg'') Original
   = Inl (Error (api_error_prefix @ no_valid_srt_message))"
proof -
  have "js ''```\<newline>note\<newline>```\<newline>1\<newline>00:00:00,500 --> 00:00:01,500\<newline>Hi there'' =
     js ''```\<newline>note\<newline>```\<newline>'' @ js ''1\<newline>00:00:00,500 --> 00:00:01,500'' @ js ''\<newline>Hi there''"
    by (simp add: js_def)
  moreover have "js ''1\<newline>00:00:00,500 --> 00:00:01,500'' \<in> cue_header_lang"
    by (rule in_cue_header_langI) code_simp
  moreover have "cleaned (js ''```\<newline>note\<newline>```\<newline>1\<newline>00:00:00,500 --> 00:00:01,500\<newline>Hi there'') = js ''note''"
    by code_simp
  moreover have "generateSrtFromAudio
     (answering \<lparr>response_text = Inr (js ''```\<newline>note\<newline>```\<newline>1\<newline>00:00:00,500 --> 00:00:01,500\<newline>Hi there''),
                 finishReason = None\<rparr>)
     (js ''QUJD'') (js ''audio/mpeg'') Original
   = Inl (Error (api_error_prefix @ no_valid_srt_message))"
    by code_simp
  ultimately show ?thesis by blast
qed

text \<open>
  C5, amended: whenever the cleaned text (trimmed, markdown block unwrapped) has a
  cue header after some preamble, \<open>generateSrtFromAudio\<close> returns the cleaned
  text from the first index at which a cue header starts, which is at or before the
  given header; the text before that index is dropped. For a response text without
  a backtick the cleaned text is the trimmed text, so this holds of every such
  response text that has a cue header after any preamble. The input of scenario B
  gives the output of scenario B.
\<close>

theorem claim_C5_amended:
  "(response_text resp = Inr t \<and> cleaned t = pre @ w @ post \<and> w \<in> cue_header_lang \<longrightarrow>
      (\<exists>i \<le> length pre.
         generateSrtFromAudio (answering resp) base64Audio mimeType lang =
           Inr (substring (cleaned t) i) \<and>
         starts_with_cue_header (substring (cleaned t) i) \<and>
         (\<forall>k < i. \<not> starts_with_cue_header (substring (cleaned t) k)))) \<and>
   (response_text resp = Inr t \<and> 0x60 \<notin> set t \<and> t = pre @ w @ post \<and> w \<in> cue_header_lang \<longrightarrow>
      (\<exists>i \<le> length pre.
         generateSrtFromAudio (answering resp) base64Audio mimeType lang =
           Inr (substring (trim t) i) \<and>
         starts_with_cue_header (substring (trim t) i) \<and>
         (\<forall>k < i. \<not> starts_with_cue_header (substring (trim t) k)))) \<and>
   generateSrtFromAudio
     (answering \<lparr>response_text = Inr (js ''Here are the subtitles:\<newline>1\<newline>00:00:00,500 --> 00:00:01,500\<newline>Hi there\<newline>''),
                 finishReason = None\<rparr>)
     base64Audio mimeType lang
   = Inr (js ''1\<newline>00:00:00,500 --> 00:00:01,500\<newline>Hi there'')"
proof -
  have g: "\<exists>i \<le> length pre.
         generateSrtFromAudio (answering resp) base64Audio mimeType lang =
           Inr (substring (cleaned t) i) \<and>
         starts_with_cue_header (substring (cleaned t) i) \<and>
         (\<forall>k < i. \<not> starts_with_cue_header (substring (cleaned t) k))"
    if "response_text resp = Inr t" "cleaned t = pre @ w @ post" "w \<in> cue_header_lang"
    for pre w post
    using parse_response_header [OF that]
    by (auto simp: generate_answering substring_def)
  have 1: "response_text resp = Inr t \<and> cleaned t = pre @ w @ post \<and> w \<in> cue_header_lang \<longrightarrow>
      (\<exists>i \<le> length pre.
         generateSrtFromAudio (answering resp) base64Audio mimeType lang =
           Inr (substring (cleaned t) i) \<and>
         starts_with_cue_header (substring (cleaned t) i) \<and>
         (\<forall>k < i. \<not> starts_with_cue_header (substring (cleaned t) k)))"
    using g by blast
  have 2: "response_text resp = Inr t \<and> 0x60 \<notin> set t \<and> t = pre @ w @ post \<and> w \<in> cue_header_lang \<longrightarrow>
      (\<exists>i \<le> length pre.
         generateSrtFromAudio (answering resp) base64Audio mimeType lang =
           Inr (substring (trim t) i) \<and>
         starts_with_cue_header (substring (trim t) i) \<and>
         (\<forall>k < i. \<not> starts_with_cue_header (substring (trim t) k)))"
  proof
    assume a: "response_text resp = Inr t \<and> 0x60 \<notin> set t \<and> t = pre @ w @ post \<and> w \<in> cue_header_lang"
    then have x: "response_text resp = Inr t" and nb: "0x60 \<notin> set t" and t: "t = pre @ w @ post"
      and w: "w \<in> cue_header_lang" by blast+
    have c: "cleaned t = trim t" by (rule cleaned_no_backtick [OF nb])
    have "trim t = dropWhile is_space pre @ w @ rev (dropWhile is_space (rev post))"
      unfolding t by (rule trim_keeps_header [OF w])
    with c have "cleaned t = dropWhile is_space pre @ w @ rev (dropWhile is_space (rev post))"
      by simp
    from g [OF x this w] obtain i where i: "i \<le> length (dropWhile is_space pre)"
      "generateSrtFromAudio (answering resp) base64Audio mimeType lang =
           Inr (substring (cleaned t) i)"
      "starts_with_cue_header (substring (cleaned t) i)"
      "\<forall>k < i. \<not> starts_with_cue_header (substring (cleaned t) k)" by blast
    have "length (dropWhile is_space pre) \<le> length pre" by (rule length_dropWhile_le)
    with i(1) have "i \<le> length pre" by simp
    with i(2,3,4) show "\<exists>i \<le> length pre.
         generateSrtFromAudio (answering resp) base64Audio mimeType lang =
           Inr (substring (trim t) i) \<and>
         starts_with_cue_header (substring (trim t) i) \<and>
         (\<forall>k < i. \<not> starts_with_cue_header (substring (trim t) k))"
      unfolding c by blast
  qed
  have "parse_response \<lparr>response_text = Inr (js ''Here are the subtitles:\<newline>1\<newline>00:00:00,500 --> 00:00:01,500\<newline>Hi there\<newline>''),
                 finishReason = None\<rparr> = Inr (js ''1\<newline>00:00:00,500 --> 00:00:01,500\<newline>Hi there'')"
    by code_simp
  then have 3: "generateSrtFromAudio
     (answering \<lparr>response_text = Inr (js ''Here are the subtitles:\<newline>1\<newline>00:00:00,500 --> 00:00:01,500\<newline>Hi there\<newline>''),
                 finishReason = None\<rparr>)
     base64Audio mimeType lang
   = Inr (js ''1\<newline>00:00:00,500 --> 00:00:01,500\<newline>Hi there'')"
    by (simp add: generate_answering)
  from 1 2 3 show ?thesis by blast
qed

theorem claim_C5_amended_witness:
  "0x60 \<notin> set (js ''Here are the subtitles:\<newline>1\<newline>00:00:00,500 --> 00:00:01,500\<newline>Hi there\<newline>'') \<and>
   js ''Here are the subtitles:\<newline>1\<newline>00:00:00,500 --> 00:00:01,500\<newline>Hi there\<newline>'' =
     js ''Here are the subtitles:\<newline>'' @ js ''1\<newline>00:00:00,500 --> 00:00:01,500'' @ js ''\<newline>Hi there\<newline>'' \<and>
   js ''1\<newline>00:00:00,500 --> 00:00:01,500'' \<in> cue_header_lang \<and>
   (\<exists>i \<le> length (js ''Here are the subtitles:\<newline>'').
      generateSrtFromAudio
        (answering \<lparr>response_text = Inr (js ''Here are the subtitles:\<newline>1\<newline>00:00:00,500 --> 00:00:01,500\<newline>Hi there\<newline>''),
                    finishReason = None\<rparr>)
        (js ''QUJD'') (js ''audio/mpeg'') Original
      = Inr (substring (trim (js ''Here are the subtitles:\<newline>1\<newline>00:00:00,500 --> 00:00:01,500\<newline>Hi there\<newline>'')) i))"
proof -
  let ?t = "js ''Here are the subtitles:\<newline>1\<newline>00:00:00,500 --> 00:00:01,500\<newline>Hi there\<newline>''"
  let ?r = "\<lparr>response_text = Inr ?t, finishReason = None\<rparr>"
  have nb: "0x60 \<notin> set ?t" by (simp add: js_def)
  have c: "?t =
     js ''Here are the subtitles:\<newline>'' @ js ''1\<newline>00:00:00,500 --> 00:00:01,500'' @ js ''\<newline>Hi there\<newline>''"
    by (simp add: js_def)
  have w: "js ''1\<newline>00:00:00,500 --> 00:00:01,500'' \<in> cue_header_lang"
    by (rule in_cue_header_langI) code_simp
  have x: "response_text ?r = Inr ?t" by simp
  from claim_C5_amended [THEN conjunct2, THEN conjunct1, of ?r ?t "js ''Here are the subtitles:\<newline>''"
      "js ''1\<newline>00:00:00,500 --> 00:00:01,500''" "js ''\<newline>Hi there\<newline>''"
      "js ''QUJD''" "js ''audio/mpeg''" Original] x nb c w
  have "\<exists>i \<le> length (js ''Here are the subtitles:\<newline>'').
      generateSrtFromAudio (answering ?r) (js ''QUJD'') (js ''audio/mpeg'') Original
      = Inr (substring (trim ?t) i)" by blast
  with nb c w show ?thesis by blast
qed

subsection \<open>C6\<close>

text \<open>
  C6: the second pattern takes a comma or a period before the milliseconds, in
  either timestamp. A text with an index line of digits, a line break and a timing
  line with such separators is matched by the pattern, at or before the index
  line, whatever stands around it. \<open>generateSrtFromAudio\<close> cannot tell the two
  separators apart: for two response texts that differ only in commas standing for
  periods or periods for commas, it returns subtitles for both, which differ in the
  same way only, or fails with the same error for both. When the cleaned text
  (trimmed, markdown block unwrapped) has such a cue header, subtitles are
  returned. The timing line of scenario E is accepted.
\<close>

theorem claim_C6:
  "(idx \<in> many1 is_digit \<and> timestamp_with sep1 t1 \<and> timestamp_with sep2 t2 \<and>
    (sep1 = 0x2C \<or> sep1 = 0x2E) \<and> (sep2 = 0x2C \<or> sep2 = 0x2E) \<longrightarrow>
      (\<exists>i st. i \<le> length pre \<and>
         js_match (pre @ idx @ [0x0A] @ t1 @ js '' --> '' @ t2 @ post) srt_block_re = Some (i, st)) \<and>
      (response_text resp = Inr t \<and>
       cleaned t = pre @ idx @ [0x0A] @ t1 @ js '' --> '' @ t2 @ post \<longrightarrow>
         (\<exists>i \<le> length pre.
            generateSrtFromAudio (answering resp) base64Audio mimeType lang =
              Inr (substring (cleaned t) i)))) \<and>
   (same_but_separators a b \<longrightarrow>
      (\<forall>out. generateSrtFromAudio (answering \<lparr>response_text = Inr a, finishReason = fr\<rparr>)
                base64Audio mimeType lang = Inr out \<longrightarrow>
         (\<exists>out'. generateSrtFromAudio (answering \<lparr>response_text = Inr b, finishReason = fr\<rparr>)
                base64Audio mimeType lang = Inr out' \<and> same_but_separators out out')) \<and>
      (\<forall>e. generateSrtFromAudio (answering \<lparr>response_text = Inr a, finishReason = fr\<rparr>)
                base64Audio mimeType lang = Inl e \<longrightarrow>
           generateSrtFromAudio (answering \<lparr>response_text = Inr b, finishReason = fr\<rparr>)
                base64Audio mimeType lang = Inl e)) \<and>
   generateSrtFromAudio
     (answering \<lparr>response_text = Inr (js ''1\<newline>00:00:01.000 --> 00:00:02.000\<newline>Hello''),
                 finishReason = None\<rparr>)
     base64Audio mimeType lang
   = Inr (js ''1\<newline>00:00:01.000 --> 00:00:02.000\<newline>Hello'')"
proof -
  have g: "idx \<in> many1 is_digit \<and> timestamp_with sep1 t1 \<and> timestamp_with sep2 t2 \<and>
    (sep1 = 0x2C \<or> sep1 = 0x2E) \<and> (sep2 = 0x2C \<or> sep2 = 0x2E) \<longrightarrow>
      (\<exists>i st. i \<le> length pre \<and>
         js_match (pre @ idx @ [0x0A] @ t1 @ js '' --> '' @ t2 @ post) srt_block_re = Some (i, st)) \<and>
      (response_text resp = Inr t \<and>
       cleaned t = pre @ idx @ [0x0A] @ t1 @ js '' --> '' @ t2 @ post \<longrightarrow>
         (\<exists>i \<le> length pre.
            generateSrtFromAudio (answering resp) base64Audio mimeType lang =
              Inr (substring (cleaned t) i)))"
  proof
    assume a: "idx \<in> many1 is_digit \<and> timestamp_with sep1 t1 \<and> timestamp_with sep2 t2 \<and>
      (sep1 = 0x2C \<or> sep1 = 0x2E) \<and> (sep2 = 0x2C \<or> sep2 = 0x2E)"
    then have s1: "is_sep sep1" and s2: "is_sep sep2" by (simp_all add: is_sep_def)
    from a have i: "idx \<in> many1 is_digit" and ts1: "timestamp_with sep1 t1"
      and ts2: "timestamp_with sep2 t2" by simp_all
    have w: "idx @ [0x0A] @ t1 @ js '' --> '' @ t2 \<in> cue_header_lang"
      by (rule cue_header_explicit [OF i ts1 ts2 s1 s2])
    have e: "pre @ idx @ [0x0A] @ t1 @ js '' --> '' @ t2 @ post =
          pre @ (idx @ [0x0A] @ t1 @ js '' --> '' @ t2) @ post" by simp
    from js_match_srt_has [OF e w]
    have 1: "\<exists>i st. i \<le> length pre \<and>
         js_match (pre @ idx @ [0x0A] @ t1 @ js '' --> '' @ t2 @ post) srt_block_re = Some (i, st)" .
    have 2: "response_text resp = Inr t \<and>
       cleaned t = pre @ idx @ [0x0A] @ t1 @ js '' --> '' @ t2 @ post \<longrightarrow>
         (\<exists>i \<le> length pre.
            generateSrtFromAudio (answering resp) base64Audio mimeType lang =
              Inr (substring (cleaned t) i))"
    proof
      assume b: "response_text resp = Inr t \<and>
        cleaned t = pre @ idx @ [0x0A] @ t1 @ js '' --> '' @ t2 @ post"
      then have x: "response_text resp = Inr t"
        and c: "cleaned t = pre @ (idx @ [0x0A] @ t1 @ js '' --> '' @ t2) @ post" by simp_all
      from parse_response_header [OF x c w]
      show "\<exists>i \<le> length pre.
            generateSrtFromAudio (answering resp) base64Audio mimeType lang =
              Inr (substring (cleaned t) i)"
        by (auto simp: generate_answering substring_def)
    qed
    from 1 2 show "(\<exists>i st. i \<le> length pre \<and>
         js_match (pre @ idx @ [0x0A] @ t1 @ js '' --> '' @ t2 @ post) srt_block_re = Some (i, st)) \<and>
      (response_text resp = Inr t \<and>
       cleaned t = pre @ idx @ [0x0A] @ t1 @ js '' --> '' @ t2 @ post \<longrightarrow>
         (\<exists>i \<le> length pre.
            generateSrtFromAudio (answering resp) base64Audio mimeType lang =
              Inr (substring (cleaned t) i)))" by (rule conjI)
  qed
  have h: "same_but_separators a b \<longrightarrow>
      (\<forall>out. generateSrtFromAudio (answering \<lparr>response_text = Inr a, finishReason = fr\<rparr>)
                base64Audio mimeType lang = Inr out \<longrightarrow>
         (\<exists>out'. generateSrtFromAudio (answering \<lparr>response_text = Inr b, finishReason = fr\<rparr>)
                base64Audio mimeType lang = Inr out' \<and> same_but_separators out out')) \<and>
      (\<forall>e. generateSrtFromAudio (answering \<lparr>response_text = Inr a, finishReason = fr\<rparr>)
                base64Audio mimeType lang = Inl e \<longrightarrow>
           generateSrtFromAudio (answering \<lparr>response_text = Inr b, finishReason = fr\<rparr>)
                base64Audio mimeType lang = Inl e)"
  proof
    assume "same_but_separators a b"
    from generate_sep_blind [OF this, of fr base64Audio mimeType lang]
    show "(\<forall>out. generateSrtFromAudio (answering \<lparr>response_text = Inr a, finishReason = fr\<rparr>)
                base64Audio mimeType lang = Inr out \<longrightarrow>
         (\<exists>out'. generateSrtFromAudio (answering \<lparr>response_text = Inr b, finishReason = fr\<rparr>)
                base64Audio mimeType lang = Inr out' \<and> same_but_separators out out')) \<and>
      (\<forall>e. generateSrtFromAudio (answering \<lparr>response_text = Inr a, finishReason = fr\<rparr>)
                base64Audio mimeType lang = Inl e \<longrightarrow>
           generateSrtFromAudio (answering \<lparr>response_text = Inr b, finishReason = fr\<rparr>)
                base64Audio mimeType lang = Inl e)"
      by (auto elim!: rel_sum.cases)
  qed
  have "parse_response \<lparr>response_text = Inr (js ''1\<newline>00:00:01.000 --> 00:00:02.000\<newline>Hello''),
                 finishReason = None\<rparr> = Inr (js ''1\<newline>00:00:01.000 --> 00:00:02.000\<newline>Hello'')"
    by code_simp
  then have e: "generateSrtFromAudio
     (answering \<lparr>response_text = Inr (js ''1\<newline>00:00:01.000 --> 00:00:02.000\<newline>Hello''),
                 finishReason = None\<rparr>)
     base64Audio mimeType lang
   = Inr (js ''1\<newline>00:00:01.000 --> 00:00:02.000\<newline>Hello'')"
    by (simp add: generate_answering)
  from g h e show ?thesis by blast
qed

theorem claim_C6_witness:
  "js ''12'' \<in> many1 is_digit \<and>
   timestamp_with 0x2E (js ''00:00:01.000'') \<and> timestamp_with 0x2C (js ''00:00:02,000'') \<and>
   (\<exists>i st. i \<le> length (js ''Subtitles:\<newline>'') \<and>
      js_match (js ''Subtitles:\<newline>'' @ js ''12'' @ [0x0A] @ js ''00:00:01.000'' @ js '' --> '' @
        js ''00:00:02,000'' @ js ''\<newline>Hello'') srt_block_re = Some (i, st)) \<and>
   same_but_separators (js ''Subtitles:\<newline>12\<newline>00:00:01,000 --> 00:00:02,000\<newline>Hello, you.'')
     (js ''Subtitles:\<newline>12\<newline>00:00:01.000 --> 00:00:02.000\<newline>Hello, you.'') \<and>
   generateSrtFromAudio
     (answering \<lparr>response_text = Inr (js ''Subtitles:\<newline>12\<newline>00:00:01,000 --> 00:00:02,000\<newline>Hello, you.''),
                 finishReason = None\<rparr>)
     (js ''QUJD'') (js ''audio/mpeg'') Original =
     Inr (js ''12\<newline>00:00:01,000 --> 00:00:02,000\<newline>Hello, you.'') \<and>
   (\<exists>out'. generateSrtFromAudio
       (answering \<lparr>response_text = Inr (js ''Subtitles:\<newline>12\<newline>00:00:01.000 --> 00:00:02.000\<newline>Hello, you.''),
                   finishReason = None\<rparr>)
       (js ''QUJD'') (js ''audio/mpeg'') Original = Inr out' \<and>
      same_but_separators (js ''12\<newline>00:00:01,000 --> 00:00:02,000\<newline>Hello, you.'') out')"
proof -
  let ?a = "js ''Subtitles:\<newline>12\<newline>00:00:01,000 --> 00:00:02,000\<newline>Hello, you.''"
  let ?b = "js ''Subtitles:\<newline>12\<newline>00:00:01.000 --> 00:00:02.000\<newline>Hello, you.''"
  have d: "js ''12'' \<in> many1 is_digit"
    by (simp add: many1_def js_def is_digit_def)
  have t1: "timestamp_with 0x2E (js ''00:00:01.000'')"
    unfolding timestamp_with_def
    by (intro exI [of _ "js ''00''"] exI [of _ "js ''01''"] exI [of _ "js ''000''"])
       (simp add: js_def exactly_def is_digit_def)
  have t2: "timestamp_with 0x2C (js ''00:00:02,000'')"
    unfolding timestamp_with_def
    by (intro exI [of _ "js ''00''"] exI [of _ "js ''02''"] exI [of _ "js ''000''"])
       (simp add: js_def exactly_def is_digit_def)
  have s: "same_but_separators ?a ?b" by code_simp
  have r: "generateSrtFromAudio (answering \<lparr>response_text = Inr ?a, finishReason = None\<rparr>)
     (js ''QUJD'') (js ''audio/mpeg'') Original =
     Inr (js ''12\<newline>00:00:01,000 --> 00:00:02,000\<newline>Hello, you.'')" by code_simp
  note c = claim_C6 [of "js ''12''" "0x2E" "js ''00:00:01.000''" "0x2C" "js ''00:00:02,000''"
      "js ''Subtitles:\<newline>''" "js ''\<newline>Hello''" _ _ _ _ _ ?a ?b None]
  from c d t1 t2
  have 1: "\<exists>i st. i \<le> length (js ''Subtitles:\<newline>'') \<and>
      js_match (js ''Subtitles:\<newline>'' @ js ''12'' @ [0x0A] @ js ''00:00:01.000'' @ js '' --> '' @
        js ''00:00:02,000'' @ js ''\<newline>Hello'') srt_block_re = Some (i, st)" by blast
  from claim_C6 [of "js ''12''" "0x2E" "js ''00:00:01.000''" "0x2C" "js ''00:00:02,000''"
      "js ''Subtitles:\<newline>''" "js ''\<newline>Hello''" _ _ "js ''QUJD''" "js ''audio/mpeg''"
      Original ?a ?b None] s r
  have 2: "\<exists>out'. generateSrtFromAudio (answering \<lparr>response_text = Inr ?b, finishReason = None\<rparr>)
       (js ''QUJD'') (js ''audio/mpeg'') Original = Inr out' \<and>
      same_but_separators (js ''12\<newline>00:00:01,000 --> 00:00:02,000\<newline>Hello, you.'') out'"
    by blast
  from d t1 t2 1 s r 2 show ?thesis by blast
qed

subsection \<open>C7\<close>

text \<open>
  C7, as stated: a failure travels upward as a value of a failure kind, and the
  sentence shown to the user depends on that kind only, never on the diagnostic
  text. The program has no failure kinds: what travels upward is an \<open>Error\<close> with a
  message, and \<open>processAudio\<close> chooses the sentence by looking for substrings in the
  lower-cased message. Two errors thrown by the same service call, which
  \<open>generateSrtFromAudio\<close> wraps in the same way, get different sentences because
  of their texts. (Both messages are ASCII, and on ASCII strings
  \<open>String.prototype.toLowerCase\<close> is \<open>ascii_lower\<close>.)
\<close>

theorem claim_C7_counterexample:
  "generateSrtFromAudio (failing (Error (js ''Request payload size exceeds the limit.'')))
     (js ''QUJD'') (js ''audio/mpeg'') Original =
     Inl (Error (js ''Gemini API Error: Request payload size exceeds the limit.'')) \<and>
   generateSrtFromAudio (failing (Error (js ''Internal error encountered.'')))
     (js ''QUJD'') (js ''audio/mpeg'') Original =
     Inl (Error (js ''Gemini API Error: Internal error encountered.'')) \<and>
   errorMessage_of ascii_lower (Error (js ''Gemini API Error: Request payload size exceeds the limit.'')) =
     js ''The audio file is too large or too long. Please use a smaller file.'' \<and>
   errorMessage_of ascii_lower (Error (js ''Gemini API Error: Internal error encountered.'')) =
     js ''There was a problem with the AI service. Please try again later.'' \<and>
   errorMessage_of ascii_lower (Error (js ''Gemini API Error: Request payload size exceeds the limit.'')) \<noteq>
     errorMessage_of ascii_lower (Error (js ''Gemini API Error: Internal error encountered.''))"
  by code_simp

text \<open>
  C7, amended: a failure travels upward as a thrown value. \<open>generateSrtFromAudio\<close>
  replaces every value thrown in its \<open>try\<close> block by an \<open>Error\<close>: an \<open>Error\<close> with
  message \<open>msg\<close> by one whose message is "Gemini API Error: " followed by \<open>msg\<close>, and
  a value that is not an \<open>Error\<close> by one whose message is "An unknown error occurred
  while communicating with the AI model.", without the prefix. When \<open>fileToBase64\<close>
  or \<open>generateSrtFromAudio\<close> fails with the value \<open>e\<close>, the sentence that
  \<open>processAudio\<close> shows is a function of \<open>e\<close>: the sentence for unexpected errors
  when \<open>e\<close> is not an \<open>Error\<close>; otherwise the sentence of the first of five tests, in
  this order, that finds its substring in the lower-cased message ("unsupported
  content" or "invalid argument"; "too long" or "payload size"; "did not return a
  valid srt format"; "safety concerns"; "gemini api error"), and the sentence for
  unexpected errors when none does. With a lower-casing that is the ASCII one on
  ASCII strings and on an ASCII beginning of any string: an \<open>Error\<close> with the prefix
  never gets the sentence for unexpected errors, it gets one of the five others;
  the error "did not return a valid SRT format" and the safety error, as wrapped,
  get their own sentences; the \<open>Error\<close> with the unknown message and the \<open>Error\<close> of
  \<open>fileToBase64\<close> get the sentence for unexpected errors.
\<close>

theorem claim_C7_amended:
  "(try_block generateContent base64Audio mimeType lang = Inl (Error msg) \<longrightarrow>
      generateSrtFromAudio generateContent base64Audio mimeType lang =
        Inl (Error (api_error_prefix @ msg))) \<and>
   (try_block generateContent base64Audio mimeType lang = Inl NonError \<longrightarrow>
      generateSrtFromAudio generateContent base64Audio mimeType lang =
        Inl (Error unknown_error_message)) \<and>
   (audioFile rendered = Some a \<and> fileToBase64 reading = Inl e \<longrightarrow>
      error (processAudio lc rendered reading generateContent lang st) = errorMessage_of lc e) \<and>
   (audioFile rendered = Some a \<and> fileToBase64 reading = Inr base64Audio \<and>
    generateSrtFromAudio generateContent base64Audio (file_type a) lang = Inl e \<longrightarrow>
      error (processAudio lc rendered reading generateContent lang st) = errorMessage_of lc e) \<and>
   errorMessage_of lc NonError = js ''An unexpected error occurred. Please try again.'' \<and>
   errorMessage_of lc (Error m) =
     (if (\<exists>x y. lc m = x @ js ''unsupported content'' @ y) \<or>
         (\<exists>x y. lc m = x @ js ''invalid argument'' @ y)
      then js ''The audio format is not supported. Please use a common format like WAV, MP3, or WEBM.''
      else if (\<exists>x y. lc m = x @ js ''too long'' @ y) \<or>
         (\<exists>x y. lc m = x @ js ''payload size'' @ y)
      then js ''The audio file is too large or too long. Please use a smaller file.''
      else if (\<exists>x y. lc m = x @ js ''did not return a valid srt format'' @ y)
      then js ''The AI could not process the audio. It might be silent, contain unsupported content, or be too complex.''
      else if (\<exists>x y. lc m = x @ js ''safety concerns'' @ y)
      then js ''Could not generate subtitles as the audio content was flagged for safety reasons.''
      else if (\<exists>x y. lc m = x @ js ''gemini api error'' @ y)
      then js ''There was a problem with the AI service. Please try again later.''
      else js ''An unexpected error occurred. Please try again.'') \<and>
   (lowers_ascii lc \<longrightarrow>
      errorMessage_of lc (Error (api_error_prefix @ m)) \<in>
        {js ''The audio format is not supported. Please use a common format like WAV, MP3, or WEBM.'',
         js ''The audio file is too large or too long. Please use a smaller file.'',
         js ''The AI could not process the audio. It might be silent, contain unsupported content, or be too complex.'',
         js ''Could not generate subtitles as the audio content was flagged for safety reasons.'',
         js ''There was a problem with the AI service. Please try again later.''} \<and>
      errorMessage_of lc (Error (api_error_prefix @ no_valid_srt_message)) =
        js ''The AI could not process the audio. It might be silent, contain unsupported content, or be too complex.'' \<and>
      errorMessage_of lc (Error (api_error_prefix @ safety_message)) =
        js ''Could not generate subtitles as the audio content was flagged for safety reasons.'' \<and>
      errorMessage_of lc (Error unknown_error_message) =
        js ''An unexpected error occurred. Please try again.'' \<and>
      errorMessage_of lc (Error read_failure_message) =
        js ''An unexpected error occurred. Please try again.'')"
proof -
  have a: "try_block generateContent base64Audio mimeType lang = Inl (Error msg) \<longrightarrow>
      generateSrtFromAudio generateContent base64Audio mimeType lang =
        Inl (Error (api_error_prefix @ msg))"
    by (simp add: generateSrtFromAudio_def rethrow_def)
  have b: "try_block generateContent base64Audio mimeType lang = Inl NonError \<longrightarrow>
      generateSrtFromAudio generateContent base64Audio mimeType lang =
        Inl (Error unknown_error_message)"
    by (simp add: generateSrtFromAudio_def rethrow_def)
  have c: "audioFile rendered = Some a \<and> fileToBase64 reading = Inl e \<longrightarrow>
      error (processAudio lc rendered reading generateContent lang st) = errorMessage_of lc e"
    by (simp add: processAudio_def Let_def)
  have d: "audioFile rendered = Some a \<and> fileToBase64 reading = Inr base64Audio \<and>
    generateSrtFromAudio generateContent base64Audio (file_type a) lang = Inl e \<longrightarrow>
      error (processAudio lc rendered reading generateContent lang st) = errorMessage_of lc e"
    by (simp add: processAudio_def Let_def)
  have e: "errorMessage_of lc NonError = js ''An unexpected error occurred. Please try again.''"
    by (simp add: errorMessage_of_def)
  have f: "errorMessage_of lc (Error m) =
     (if (\<exists>x y. lc m = x @ js ''unsupported content'' @ y) \<or>
         (\<exists>x y. lc m = x @ js ''invalid argument'' @ y)
      then js ''The audio format is not supported. Please use a common format like WAV, MP3, or WEBM.''
      else if (\<exists>x y. lc m = x @ js ''too long'' @ y) \<or>
         (\<exists>x y. lc m = x @ js ''payload size'' @ y)
      then js ''The audio file is too large or too long. Please use a smaller file.''
      else if (\<exists>x y. lc m = x @ js ''did not return a valid srt format'' @ y)
      then js ''The AI could not process the audio. It might be silent, contain unsupported content, or be too complex.''
      else if (\<exists>x y. lc m = x @ js ''safety concerns'' @ y)
      then js ''Could not generate subtitles as the audio content was flagged for safety reasons.''
      else if (\<exists>x y. lc m = x @ js ''gemini api error'' @ y)
      then js ''There was a problem with the AI service. Please try again later.''
      else js ''An unexpected error occurred. Please try again.'')"
    unfolding errorMessage_of_def Let_def thrown.case includes_str_iff ..
  have g: "lowers_ascii lc \<longrightarrow>
      errorMessage_of lc (Error (api_error_prefix @ m)) \<in>
        {js ''The audio format is not supported. Please use a common format like WAV, MP3, or WEBM.'',
         js ''The audio file is too large or too long. Please use a smaller file.'',
         js ''The AI could not process the audio. It might be silent, contain unsupported content, or be too complex.'',
         js ''Could not generate subtitles as the audio content was flagged for safety reasons.'',
         js ''There was a problem with the AI service. Please try again later.''} \<and>
      errorMessage_of lc (Error (api_error_prefix @ no_valid_srt_message)) =
        js ''The AI could not process the audio. It might be silent, contain unsupported content, or be too complex.'' \<and>
      errorMessage_of lc (Error (api_error_prefix @ safety_message)) =
        js ''Could not generate subtitles as the audio content was flagged for safety reasons.'' \<and>
      errorMessage_of lc (Error unknown_error_message) =
        js ''An unexpected error occurred. Please try again.'' \<and>
      errorMessage_of lc (Error read_failure_message) =
        js ''An unexpected error occurred. Please try again.''"
  proof
    assume l: "lowers_ascii lc"
    have g1: "errorMessage_of lc (Error (api_error_prefix @ m)) \<in>
        {js ''The audio format is not supported. Please use a common format like WAV, MP3, or WEBM.'',
         js ''The audio file is too large or too long. Please use a smaller file.'',
         js ''The AI could not process the audio. It might be silent, contain unsupported content, or be too complex.'',
         js ''Could not generate subtitles as the audio content was flagged for safety reasons.'',
         js ''There was a problem with the AI service. Please try again later.''}"
      using wrapped_includes [OF l, of m] by (simp add: errorMessage_of_def Let_def)
    have i1: "is_ascii (api_error_prefix @ no_valid_srt_message)" by code_simp
    have i2: "is_ascii (api_error_prefix @ safety_message)" by code_simp
    have i3: "is_ascii unknown_error_message" by code_simp
    have i4: "is_ascii read_failure_message" by code_simp
    have v1: "errorMessage_of ascii_lower (Error (api_error_prefix @ no_valid_srt_message)) =
        js ''The AI could not process the audio. It might be silent, contain unsupported content, or be too complex.''"
      by code_simp
    have v2: "errorMessage_of ascii_lower (Error (api_error_prefix @ safety_message)) =
        js ''Could not generate subtitles as the audio content was flagged for safety reasons.''"
      by code_simp
    have v3: "errorMessage_of ascii_lower (Error unknown_error_message) =
        js ''An unexpected error occurred. Please try again.''"
      by code_simp
    have v4: "errorMessage_of ascii_lower (Error read_failure_message) =
        js ''An unexpected error occurred. Please try again.''"
      by code_simp
    have g2: "errorMessage_of lc (Error (api_error_prefix @ no_valid_srt_message)) =
        js ''The AI could not process the audio. It might be silent, contain unsupported content, or be too complex.''"
      using errorMessage_of_ascii [OF l i1] v1 by (rule trans)
    have g3: "errorMessage_of lc (Error (api_error_prefix @ safety_message)) =
        js ''Could not generate subtitles as the audio content was flagged for safety reasons.''"
      using errorMessage_of_ascii [OF l i2] v2 by (rule trans)
    have g4: "errorMessage_of lc (Error unknown_error_message) =
        js ''An unexpected error occurred. Please try again.''"
      using errorMessage_of_ascii [OF l i3] v3 by (rule trans)
    have g5: "errorMessage_of lc (Error read_failure_message) =
        js ''An unexpected error occurred. Please try again.''"
      using errorMessage_of_ascii [OF l i4] v4 by (rule trans)
    from g1 g2 g3 g4 g5 show "errorMessage_of lc (Error (api_error_prefix @ m)) \<in>
        {js ''The audio format is not supported. Please use a common format like WAV, MP3, or WEBM.'',
         js ''The audio file is too large or too long. Please use a smaller file.'',
         js ''The AI could not process the audio. It might be silent, contain unsupported content, or be too complex.'',
         js ''Could not generate subtitles as the audio content was flagged for safety reasons.'',
         js ''There was a problem with the AI service. Please try again later.''} \<and>
      errorMessage_of lc (Error (api_error_prefix @ no_valid_srt_message)) =
        js ''The AI could not process the audio. It might be silent, contain unsupported content, or be too complex.'' \<and>
      errorMessage_of lc (Error (api_error_prefix @ safety_message)) =
        js ''Could not generate subtitles as the audio content was flagged for safety reasons.'' \<and>
      errorMessage_of lc (Error unknown_error_message) =
        js ''An unexpected error occurred. Please try again.'' \<and>
      errorMessage_of lc (Error read_failure_message) =
        js ''An unexpected error occurred. Please try again.''"
      by (intro conjI)
  qed
  from a b c d e f g show ?thesis by (intro conjI)
qed

theorem claim_C7_amended_witness:
  "try_block (failing (Error (js ''Request payload size exceeds the limit.''))) (js ''QUJD'')
     (js ''audio/mpeg'') Original = Inl (Error (js ''Request payload size exceeds the limit.'')) \<and>
   generateSrtFromAudio (failing (Error (js ''Request payload size exceeds the limit.''))) (js ''QUJD'')
     (js ''audio/mpeg'') Original =
     Inl (Error (api_error_prefix @ js ''Request payload size exceeds the limit.'')) \<and>
   try_block (failing NonError) (js ''QUJD'') (js ''audio/mpeg'') Original = Inl NonError \<and>
   generateSrtFromAudio (failing NonError) (js ''QUJD'') (js ''audio/mpeg'') Original =
     Inl (Error unknown_error_message) \<and>
   fileToBase64 OnError = Inl NonError \<and>
   error (processAudio ascii_lower
       \<lparr>mode = Upload, audioFile = Some \<lparr>file_name = js ''a.mp3'', file_type = js ''audio/mpeg''\<rparr>,
        audioDuration = Num 0, srtContent = [], isLoading = False, error = [],
        targetLanguage = Original\<rparr>
       OnError (failing NonError) Original
       \<lparr>mode = Upload, audioFile = Some \<lparr>file_name = js ''a.mp3'', file_type = js ''audio/mpeg''\<rparr>,
        audioDuration = Num 0, srtContent = [], isLoading = False, error = [],
        targetLanguage = Original\<rparr>) =
     js ''An unexpected error occurred. Please try again.'' \<and>
   fileToBase64 (OnLoad (js ''data:audio/mpeg;base64,QUJD'')) = Inr (js ''QUJD'') \<and>
   error (processAudio ascii_lower
       \<lparr>mode = Upload, audioFile = Some \<lparr>file_name = js ''a.mp3'', file_type = js ''audio/mpeg''\<rparr>,
        audioDuration = Num 0, srtContent = [], isLoading = False, error = [],
        targetLanguage = Original\<rparr>
       (OnLoad (js ''data:audio/mpeg;base64,QUJD''))
       (failing (Error (js ''Request payload size exceeds the limit.''))) Original
       \<lparr>mode = Upload, audioFile = Some \<lparr>file_name = js ''a.mp3'', file_type = js ''audio/mpeg''\<rparr>,
        audioDuration = Num 0, srtContent = [], isLoading = False, error = [],
        targetLanguage = Original\<rparr>) =
     js ''The audio file is too large or too long. Please use a smaller file.'' \<and>
   lowers_ascii ascii_lower \<and>
   errorMessage_of ascii_lower (Error (api_error_prefix @ js ''Internal error encountered.'')) =
     js ''There was a problem with the AI service. Please try again later.'' \<and>
   errorMessage_of ascii_lower (Error (api_error_prefix @ no_valid_srt_message)) =
     js ''The AI could not process the audio. It might be silent, contain unsupported content, or be too complex.'' \<and>
   errorMessage_of ascii_lower (Error unknown_error_message) =
     js ''An unexpected error occurred. Please try again.''"
proof -
  let ?msg = "js ''Request payload size exceeds the limit.''"
  let ?a = "\<lparr>file_name = js ''a.mp3'', file_type = js ''audio/mpeg''\<rparr>"
  let ?st = "\<lparr>mode = Upload, audioFile = Some ?a,
        audioDuration = Num 0, srtContent = [], isLoading = False, error = [],
        targetLanguage = Original\<rparr>"
  let ?rd = "OnLoad (js ''data:audio/mpeg;base64,QUJD'')"
  note t1 = claim_C7_amended [where generateContent = "failing (Error ?msg)"
      and base64Audio = "js ''QUJD''" and mimeType = "js ''audio/mpeg''" and lang = Original
      and msg = ?msg and rendered = ?st and a = ?a and reading = ?rd
      and e = "Error (api_error_prefix @ ?msg)" and lc = ascii_lower and st = ?st
      and m = "js ''Internal error encountered.''"]
  note t2 = claim_C7_amended [where generateContent = "failing NonError"
      and base64Audio = "js ''QUJD''" and mimeType = "js ''audio/mpeg''" and lang = Original
      and rendered = ?st and a = ?a and reading = OnError
      and e = NonError and lc = ascii_lower and st = ?st]
  have p1: "try_block (failing (Error ?msg)) (js ''QUJD'') (js ''audio/mpeg'') Original =
      Inl (Error ?msg)"
    by (simp add: try_block_def failing_def)
  have p2: "try_block (failing NonError) (js ''QUJD'') (js ''audio/mpeg'') Original = Inl NonError"
    by (simp add: try_block_def failing_def)
  have p3: "audioFile ?st = Some ?a" by simp
  have p4: "fileToBase64 OnError = Inl NonError" by (simp add: fileToBase64_def)
  have p5: "fileToBase64 ?rd = Inr (js ''QUJD'')" by code_simp
  have p6: "file_type ?a = js ''audio/mpeg''" by simp
  have l: "lowers_ascii ascii_lower" by (rule lowers_ascii_ascii_lower)
  have q1: "generateSrtFromAudio (failing (Error ?msg)) (js ''QUJD'') (js ''audio/mpeg'') Original =
     Inl (Error (api_error_prefix @ ?msg))"
    using t1 p1 by blast
  have q2: "generateSrtFromAudio (failing NonError) (js ''QUJD'') (js ''audio/mpeg'') Original =
     Inl (Error unknown_error_message)"
    using t2 p2 by blast
  have q3: "error (processAudio ascii_lower ?st OnError (failing NonError) Original ?st) =
     js ''An unexpected error occurred. Please try again.''"
    using t2 p3 p4 by simp
  have v: "errorMessage_of ascii_lower (Error (api_error_prefix @ ?msg)) =
     js ''The audio file is too large or too long. Please use a smaller file.''"
    by code_simp
  have "error (processAudio ascii_lower ?st ?rd (failing (Error ?msg)) Original ?st) =
     errorMessage_of ascii_lower (Error (api_error_prefix @ ?msg))"
    using t1 p3 p5 p6 q1 by simp
  then have q4: "error (processAudio ascii_lower ?st ?rd (failing (Error ?msg)) Original ?st) =
     js ''The audio file is too large or too long. Please use a smaller file.''"
    using v by (rule trans)
  have v5: "errorMessage_of ascii_lower (Error (api_error_prefix @ js ''Internal error encountered.'')) =
     js ''There was a problem with the AI service. Please try again later.''"
    by code_simp
  have q6: "errorMessage_of ascii_lower (Error (api_error_prefix @ no_valid_srt_message)) =
     js ''The AI could not process the audio. It might be silent, contain unsupported content, or be too complex.''"
    using t1 l by blast
  have q7: "errorMessage_of ascii_lower (Error unknown_error_message) =
     js ''An unexpected error occurred. Please try again.''"
    using t1 l by blast
  from p1 q1 p2 q2 p4 q3 p5 q4 l v5 q6 q7 show ?thesis by (intro conjI)
qed

subsection \<open>C8\<close>

text \<open>
  C8, as stated: whenever the duration of the audio cannot be determined, the
  duration is taken to be 0. The probe fails only when the \<open>audio\<close> element fires
  \<open>error\<close>. When the element fires \<open>loadedmetadata\<close>, \<open>getAudioDuration\<close> resolves
  with \<open>audio.duration\<close> as it is, with no test that it is a finite number; for a
  file whose duration the browser cannot tell, such as a recording that the
  \<open>MediaRecorder\<close> has just made, \<open>audio.duration\<close> is \<open>Infinity\<close>, or \<open>NaN\<close>. Then
  \<open>handleAudioFileChange\<close> stores that value, not 0, and for \<open>Infinity\<close> the \<open>Loader\<close>
  shows its hint for longer audio.
\<close>

theorem claim_C8_counterexample:
  "getAudioDuration (LoadedMetadata PosInfinity) = Inr PosInfinity \<and>
   audioDuration (handleAudioFileChange (LoadedMetadata PosInfinity)
       (Some \<lparr>file_name = js ''recording-1.webm'', file_type = js ''audio/webm''\<rparr>)
       \<lparr>mode = Record, audioFile = None, audioDuration = Num 0, srtContent = [],
        isLoading = False, error = [], targetLanguage = Original\<rparr>) = PosInfinity \<and>
   PosInfinity \<noteq> Num 0 \<and>
   long_audio_hint PosInfinity \<and>
   audioDuration (handleAudioFileChange (LoadedMetadata NaN)
       (Some \<lparr>file_name = js ''recording-1.webm'', file_type = js ''audio/webm''\<rparr>)
       \<lparr>mode = Record, audioFile = None, audioDuration = Num 0, srtContent = [],
        isLoading = False, error = [], targetLanguage = Original\<rparr>) = NaN \<and>
   NaN \<noteq> Num 0"
  by (simp add: getAudioDuration_def handleAudioFileChange_def long_audio_hint_def)

text \<open>
  C8, amended: when the \<open>audio\<close> element fires \<open>error\<close>, \<open>getAudioDuration\<close> rejects,
  and \<open>handleAudioFileChange\<close> does not fail: it keeps the file, shows no error and
  sets the duration to 0, for which the \<open>Loader\<close> shows no hint for longer audio.
  \<open>processAudio\<close> does not use the duration: its updates of the state are the same
  for every duration of the rendering that it closes over, and it leaves the
  duration of the state as it is.
\<close>

theorem claim_C8_amended:
  "getAudioDuration (MediaError m) =
     Inl (Error (js ''Failed to load audio metadata. Error: '' @ m)) \<and>
   handleAudioFileChange (MediaError m) (Some a) st =
     st\<lparr>audioFile := Some a, srtContent := [], error := [], targetLanguage := Original,
        audioDuration := Num 0\<rparr> \<and>
   \<not> long_audio_hint (Num 0) \<and>
   processAudio lc (rendered\<lparr>audioDuration := d\<rparr>) reading generateContent lang
       (st\<lparr>audioDuration := d'\<rparr>) =
     (processAudio lc rendered reading generateContent lang st)\<lparr>audioDuration := d'\<rparr>"
  by (simp add: getAudioDuration_def handleAudioFileChange_def long_audio_hint_def
      processAudio_def Let_def split: option.splits sum.splits)

subsection \<open>C9\<close>

text \<open>
  C9: the data URL of a file without bytes has an empty payload after its comma.
  \<open>fileToBase64\<close> then rejects with the error "Failed to read file as base64.",
  although the reader fired \<open>load\<close>: the guard takes the empty string for a
  failure. A payload that is not empty is returned. (The MIME type and the payload
  have no comma.) A reader that gives the bare \<^verbatim>\<open>data:\<close> for such a file leads to the
  same rejection, since then there is no second piece at all.
\<close>

theorem claim_C9:
  "(0x2C \<notin> set ty \<and> 0x2C \<notin> set payload \<longrightarrow>
      fileToBase64 (OnLoad (dataURL ty payload)) =
        (if payload = [] then Inl (Error (js ''Failed to read file as base64.''))
         else Inr payload)) \<and>
   fileToBase64 (OnLoad (js ''data:'')) = Inl (Error (js ''Failed to read file as base64.''))"
proof -
  have a: "0x2C \<notin> set ty \<and> 0x2C \<notin> set payload \<longrightarrow>
      fileToBase64 (OnLoad (dataURL ty payload)) =
        (if payload = [] then Inl (Error (js ''Failed to read file as base64.''))
         else Inr payload)"
    by (simp add: fileToBase64_def dataURL_split read_failure_message_def)
  have b: "fileToBase64 (OnLoad (js ''data:'')) = Inl (Error (js ''Failed to read file as base64.''))"
    by code_simp
  from a b show ?thesis by (rule conjI)
qed

theorem claim_C9_witness:
  "0x2C \<notin> set (js ''audio/mpeg'') \<and>
   fileToBase64 (OnLoad (dataURL (js ''audio/mpeg'') [])) =
     Inl (Error (js ''Failed to read file as base64.''))"
proof -
  have a: "0x2C \<notin> set (js ''audio/mpeg'')" by (simp add: js_def)
  have b: "(0x2C :: jschar) \<notin> set []" by simp
  from claim_C9 [THEN conjunct1, of "js ''audio/mpeg''" "[]"] a b show ?thesis by simp
qed

subsection \<open>C10\<close>

text \<open>
  C10: whatever is thrown inside the \<open>try\<close> block of \<open>generateSrtFromAudio\<close> is
  caught by its handler and thrown again as a new \<open>Error\<close>. When the service throws
  an \<open>Error\<close>, when the text accessor throws an \<open>Error\<close>, and when the function itself
  throws because the cleaned text has no cue header (the safety error or the error
  "did not return a valid SRT format"), the message of the new \<open>Error\<close> is
  "Gemini API Error: " followed by the message of the one thrown.
\<close>

theorem claim_C10:
  "(generateContent (Request (js ''gemini-2.5-flash'') (textPart_of lang) base64Audio mimeType) =
      Inl (Error msg) \<longrightarrow>
    generateSrtFromAudio generateContent base64Audio mimeType lang =
      Inl (Error (js ''Gemini API Error: '' @ msg))) \<and>
   (generateContent (Request (js ''gemini-2.5-flash'') (textPart_of lang) base64Audio mimeType) =
      Inr resp \<and> response_text resp = Inl (Error msg) \<longrightarrow>
    generateSrtFromAudio generateContent base64Audio mimeType lang =
      Inl (Error (js ''Gemini API Error: '' @ msg))) \<and>
   (generateContent (Request (js ''gemini-2.5-flash'') (textPart_of lang) base64Audio mimeType) =
      Inr resp \<and> response_text resp = Inr t \<and> \<not> has_cue_header (cleaned t) \<longrightarrow>
    parse_response resp =
      Inl (Error (if finishReason resp = Some (js ''SAFETY'') then safety_message
                  else no_valid_srt_message)) \<and>
    generateSrtFromAudio generateContent base64Audio mimeType lang =
      Inl (Error (js ''Gemini API Error: '' @
        (if finishReason resp = Some (js ''SAFETY'') then safety_message
         else no_valid_srt_message)))) \<and>
   (try_block generateContent base64Audio mimeType lang = Inl (Error msg) \<longrightarrow>
    generateSrtFromAudio generateContent base64Audio mimeType lang =
      Inl (Error (js ''Gemini API Error: '' @ msg)))"
proof (intro conjI impI)
  assume "generateContent (Request (js ''gemini-2.5-flash'') (textPart_of lang) base64Audio mimeType) =
      Inl (Error msg)"
  then show "generateSrtFromAudio generateContent base64Audio mimeType lang =
      Inl (Error (js ''Gemini API Error: '' @ msg))"
    by (simp add: generateSrtFromAudio_def try_block_def rethrow_def api_error_prefix_def)
next
  assume "generateContent (Request (js ''gemini-2.5-flash'') (textPart_of lang) base64Audio mimeType) =
      Inr resp \<and> response_text resp = Inl (Error msg)"
  then show "generateSrtFromAudio generateContent base64Audio mimeType lang =
      Inl (Error (js ''Gemini API Error: '' @ msg))"
    by (simp add: generateSrtFromAudio_def try_block_def parse_response_def rethrow_def
        api_error_prefix_def)
next
  assume a: "generateContent (Request (js ''gemini-2.5-flash'') (textPart_of lang) base64Audio mimeType) =
      Inr resp \<and> response_text resp = Inr t \<and> \<not> has_cue_header (cleaned t)"
  then have p: "parse_response resp =
      (if finishReason resp = Some (js ''SAFETY'') then Inl (Error safety_message)
       else Inl (Error no_valid_srt_message))"
    by (simp add: parse_response_no_header)
  then show "parse_response resp =
      Inl (Error (if finishReason resp = Some (js ''SAFETY'') then safety_message
                  else no_valid_srt_message))"
    by simp
  from a p show "generateSrtFromAudio generateContent base64Audio mimeType lang =
      Inl (Error (js ''Gemini API Error: '' @
        (if finishReason resp = Some (js ''SAFETY'') then safety_message
         else no_valid_srt_message)))"
    by (simp add: generateSrtFromAudio_def try_block_def rethrow_def api_error_prefix_def)
next
  assume "try_block generateContent base64Audio mimeType lang = Inl (Error msg)"
  then show "generateSrtFromAudio generateContent base64Audio mimeType lang =
      Inl (Error (js ''Gemini API Error: '' @ msg))"
    by (simp add: generateSrtFromAudio_def rethrow_def api_error_prefix_def)
qed

theorem claim_C10_witness:
  "generateSrtFromAudio (failing (Error (js ''fetch failed''))) (js ''QUJD'') (js ''audio/mpeg'') Original =
     Inl (Error (js ''Gemini API Error: fetch failed'')) \<and>
   \<not> has_cue_header (cleaned (js ''I cannot process this audio.'')) \<and>
   generateSrtFromAudio
     (answering \<lparr>response_text = Inr (js ''I cannot process this audio.''), finishReason = None\<rparr>)
     (js ''QUJD'') (js ''audio/mpeg'') Original =
     Inl (Error (js ''Gemini API Error: The model did not return a valid SRT format. It might have refused the request or failed to process the audio.''))"
proof -
  let ?req = "Request (js ''gemini-2.5-flash'') (textPart_of Original) (js ''QUJD'') (js ''audio/mpeg'')"
  let ?t = "js ''I cannot process this audio.''"
  let ?r = "\<lparr>response_text = Inr ?t, finishReason = None\<rparr>"
  have a: "failing (Error (js ''fetch failed'')) ?req = Inl (Error (js ''fetch failed''))"
    by (simp add: failing_def)
  have "js_match (cleaned ?t) srt_block_re = None" by code_simp
  then have n: "\<not> has_cue_header (cleaned ?t)" using js_match_srt_None by blast
  have b: "answering ?r ?req = Inr ?r \<and> response_text ?r = Inr ?t \<and> \<not> has_cue_header (cleaned ?t)"
    using n by (simp add: answering_def)
  have m: "js ''Gemini API Error: '' @ js ''fetch failed'' = js ''Gemini API Error: fetch failed''"
    by (simp add: js_def)
  have m2: "js ''Gemini API Error: '' @ no_valid_srt_message =
     js ''Gemini API Error: The model did not return a valid SRT format. It might have refused the request or failed to process the audio.''"
    by (simp add: js_def no_valid_srt_message_def)
  from claim_C10 [of "failing (Error (js ''fetch failed''))" Original "js ''QUJD''" "js ''audio/mpeg''"
             "js ''fetch failed''"] a m
  have 1: "generateSrtFromAudio (failing (Error (js ''fetch failed''))) (js ''QUJD'') (js ''audio/mpeg'') Original =
     Inl (Error (js ''Gemini API Error: fetch failed''))" by simp
  from claim_C10 [of "answering ?r" Original "js ''QUJD''" "js ''audio/mpeg''" _ ?r ?t] b m2
  have 2: "generateSrtFromAudio (answering ?r) (js ''QUJD'') (js ''audio/mpeg'') Original =
     Inl (Error (js ''Gemini API Error: The model did not return a valid SRT format. It might have refused the request or failed to process the audio.''))"
    by simp
  from 1 2 n show ?thesis by blast
qed

end
